theory Spec2Isabelle
  imports Complex_Main "HOL-Library.Sublist" "HOL-Library.AList"
begin

section \<open>JavaScript strings\<close>

text \<open>
  A JavaScript string is a sequence of UTF-16 code units. The model keeps the code units
  below 256 (Basic Latin and Latin-1 Supplement), one \<^typ>\<open>char\<close> per code unit, so that
  an accented French letter such as U+00E8 is the single character \<open>CHR 0xE8\<close>.
  Within this range \<open>toLowerCase\<close> maps A-Z and the upper-case letters U+00C0..U+00DE
  (without the multiplication sign U+00D7) to the code unit 32 above, and the white space
  of \<open>\s\<close> and of \<open>trim\<close> is TAB, LF, VT, FF, CR, SPACE and NBSP. The last section
  gives the normalisation of a query on all code units.
\<close>

definition code_unit :: "char \<Rightarrow> nat" where
  "code_unit c = of_char c"

definition is_space :: "char \<Rightarrow> bool" where
  "is_space c = (code_unit c \<in> {9, 10, 11, 12, 13, 32, 160})"

definition is_word_char :: "char \<Rightarrow> bool" where
  "is_word_char c =
     (let n = code_unit c in
        (48 \<le> n \<and> n \<le> 57) \<or> (65 \<le> n \<and> n \<le> 90) \<or> n = 95 \<or> (97 \<le> n \<and> n \<le> 122))"

definition lower_char :: "char \<Rightarrow> char" where
  "lower_char c =
     (let n = code_unit c in
        if (65 \<le> n \<and> n \<le> 90) \<or> (192 \<le> n \<and> n \<le> 222 \<and> n \<noteq> 215)
        then char_of (n + 32) else c)"

definition toLowerCase :: "string \<Rightarrow> string" where
  "toLowerCase s = map lower_char s"

definition trim :: "string \<Rightarrow> string" where
  "trim s = rev (dropWhile is_space (rev (dropWhile is_space s)))"

text \<open>\<open>s.replace(/[^\w\s]/g, ' ')\<close>\<close>

definition replace_nonword :: "string \<Rightarrow> string" where
  "replace_nonword s = map (\<lambda>c. if is_word_char c \<or> is_space c then c else CHR '' '') s"

text \<open>\<open>s.replace(/\s+/g, ' ')\<close>: every maximal run of white space becomes one space.\<close>

fun collapse_run :: "bool \<Rightarrow> string \<Rightarrow> string" where
  "collapse_run in_run [] = []"
| "collapse_run in_run (c # cs) =
     (if is_space c
      then (if in_run then collapse_run True cs else CHR '' '' # collapse_run True cs)
      else c # collapse_run False cs)"

definition collapse_ws :: "string \<Rightarrow> string" where
  "collapse_ws s = collapse_run False s"

text \<open>\<open>s.split(d)\<close> for a one-character separator: never returns the empty array.\<close>

fun split_char :: "char \<Rightarrow> string \<Rightarrow> string list" where
  "split_char d [] = [[]]"
| "split_char d (c # cs) =
     (if c = d then [] # split_char d cs
      else (case split_char d cs of
              [] \<Rightarrow> [[c]]
            | w # ws \<Rightarrow> (c # w) # ws))"


text \<open>\<open>w.endsWith(s)\<close> and \<open>s.includes(t)\<close>\<close>

definition endsWith :: "string \<Rightarrow> string \<Rightarrow> bool" where
  "endsWith w s = (length s \<le> length w \<and> drop (length w - length s) w = s)"


text \<open>
  \<open>s.replace(pat, rep)\<close> with a string pattern replaces the first occurrence only.
  (The replacement strings of this program contain no \<open>$\<close>, so no substitution
  pattern of \<open>replace\<close> applies.)
\<close>

fun replace_first :: "string \<Rightarrow> string \<Rightarrow> string \<Rightarrow> string" where
  "replace_first [] pat rep = (if pat = [] then rep else [])"
| "replace_first (c # cs) pat rep =
     (if prefix pat (c # cs) then rep @ drop (length pat) (c # cs)
      else c # replace_first cs pat rep)"

section \<open>Query normalisation\<close>

text \<open>
  \<open>RagSearchService.normalizeQuery\<close> (\<open>query || ''\<close>: the absent query is the empty
  string) and \<open>Database.normalizeSearchTerm\<close>.
\<close>

definition normalizeQuery :: "string \<Rightarrow> string" where
  "normalizeQuery query = trim (collapse_ws (replace_nonword (trim (toLowerCase query))))"

definition normalizeSearchTerm :: "string \<Rightarrow> string" where
  "normalizeSearchTerm searchTerm =
     trim (collapse_ws (replace_nonword (toLowerCase (trim searchTerm))))"

section \<open>Stemming\<close>

text \<open>
  The guard of the loop of \<open>stemWord\<close>, and the loop over a suffix table: it stops
  (\<open>break\<close>) at the first suffix that passes the guard.
\<close>

definition suffix_applies :: "string \<Rightarrow> string \<Rightarrow> bool" where
  "suffix_applies word suf = (endsWith word suf \<and> length word > length suf + 2)"

fun stem_loop :: "string \<Rightarrow> string list \<Rightarrow> string" where
  "stem_loop word [] = word"
| "stem_loop word (suf # rest) =
     (if suffix_applies word suf
      then take (length word - length suf) word
      else stem_loop word rest)"

definition db_frenchSuffixes :: "string list" where
  "db_frenchSuffixes =
     [''ation'', ''tion'', ''sion'', ''ment'', ''ique'', ''able'', ''ible'', ''eur'',
      ''euse'', ''ant'', ''ent'', ''er'', ''ir'', ''oir'', ''ez'', ''ons'', ''ont'',
      ''ais'', ''ait'', ''es'', ''s'']"

definition chat_frenchSuffixes :: "string list" where
  "chat_frenchSuffixes =
     [''tion'', ''sion'', ''ment'', ''ique'', ''able'', ''ible'', ''eur'', ''euse'',
      ''ant'', ''ent'', ''ais'', ''ait'', ''ons'', ''ez'', ''ont'', ''er'', ''ir'', ''oir'']"

text \<open>\<open>Database.stemWord\<close> (every replacement is the empty string).\<close>

definition db_stemWord :: "string \<Rightarrow> string" where
  "db_stemWord word = stem_loop word db_frenchSuffixes"

text \<open>\<open>ChatService.stemWord\<close>\<close>

definition stemWord :: "string \<Rightarrow> string" where
  "stemWord word = stem_loop word chat_frenchSuffixes"

text \<open>
  The reading of the specification that \<open>stem\<close> cuts the longest suffix of the table
  that the word ends with, kept apart from the code for comparison.
\<close>

definition spec_longest_suffix :: "string list \<Rightarrow> string \<Rightarrow> string option" where
  "spec_longest_suffix tbl word =
     foldl (\<lambda>best s.
              if endsWith word s \<and> (case best of None \<Rightarrow> True | Some b \<Rightarrow> length b < length s)
              then Some s else best)
           None tbl"

definition spec_stem_longest :: "string list \<Rightarrow> string \<Rightarrow> string" where
  "spec_stem_longest tbl word =
     (case spec_longest_suffix tbl word of
        None \<Rightarrow> word
      | Some s \<Rightarrow> if length word > length s + 2
                 then take (length word - length s) word else word)"

section \<open>The bounded cache (\<open>CacheService\<close>)\<close>

text \<open>
  \<open>this.cache\<close> and \<open>this.accessOrder\<close> are JavaScript \<open>Map\<close>s: association lists in
  insertion order, where setting a present key keeps its position (\<open>AList.update\<close>).
  \<open>Date.now()\<close> is the parameter \<open>now\<close> (milliseconds); all the readings of the clock
  within one synchronous call return the same millisecond.
\<close>

record 'v cache_entry =
  entry_value :: 'v
  expires :: int
  created :: int

record cache_stats =
  hits :: nat
  misses :: nat
  sets :: nat
  deletes :: nat
  evictions :: nat

record cache_config =
  cfg_maxEntries :: nat
  cfg_ttl :: int

record 'v cache_state =
  cache :: "(string \<times> 'v cache_entry) list"
  accessOrder :: "(string \<times> int) list"
  maxEntries :: nat
  ttl :: int
  stats :: cache_stats

text \<open>The constructor: \<open>config.maxEntries || 1000\<close>, \<open>config.ttl || 300000\<close>.\<close>

definition new_cache :: "cache_config \<Rightarrow> 'v cache_state" where
  "new_cache config =
     \<lparr>cache = [], accessOrder = [],
      maxEntries = (if cfg_maxEntries config = 0 then 1000 else cfg_maxEntries config),
      ttl = (if cfg_ttl config = 0 then 300000 else cfg_ttl config),
      stats = \<lparr>hits = 0, misses = 0, sets = 0, deletes = 0, evictions = 0\<rparr>\<rparr>"

definition cache_delete :: "string \<Rightarrow> 'v cache_state \<Rightarrow> bool \<times> 'v cache_state" where
  "cache_delete key c =
     (if map_of (cache c) key \<noteq> None
      then (True, c\<lparr>cache := AList.delete key (cache c),
                     accessOrder := AList.delete key (accessOrder c),
                     stats := (stats c)\<lparr>deletes := deletes (stats c) + 1\<rparr>\<rparr>)
      else (False, c))"

definition cache_get :: "int \<Rightarrow> string \<Rightarrow> 'v cache_state \<Rightarrow> 'v option \<times> 'v cache_state" where
  "cache_get now key c =
     (case map_of (cache c) key of
        None \<Rightarrow> (None, c\<lparr>stats := (stats c)\<lparr>misses := misses (stats c) + 1\<rparr>\<rparr>)
      | Some entry \<Rightarrow>
          if now > expires entry
          then (let c1 = snd (cache_delete key c)
                in (None, c1\<lparr>stats := (stats c1)\<lparr>misses := misses (stats c1) + 1\<rparr>\<rparr>))
          else (Some (entry_value entry),
                c\<lparr>accessOrder := AList.update key now (accessOrder c),
                  stats := (stats c)\<lparr>hits := hits (stats c) + 1\<rparr>\<rparr>))"

definition cache_has :: "int \<Rightarrow> string \<Rightarrow> 'v cache_state \<Rightarrow> bool \<times> 'v cache_state" where
  "cache_has now key c =
     (case map_of (cache c) key of
        None \<Rightarrow> (False, c)
      | Some entry \<Rightarrow>
          if now > expires entry then (False, snd (cache_delete key c)) else (True, c))"

text \<open>
  The scan of \<open>evictOldest\<close>: \<open>oldestKey\<close> starts as \<open>null\<close> and \<open>oldestTime\<close> as
  \<open>Date.now()\<close>; a key replaces the candidate only when its access time is strictly
  smaller.
\<close>

fun oldest_scan :: "(string \<times> int) list \<Rightarrow> string option \<times> int \<Rightarrow> string option \<times> int" where
  "oldest_scan [] acc = acc"
| "oldest_scan ((key, accessTime) # rest) (oldestKey, oldestTime) =
     (if accessTime < oldestTime then oldest_scan rest (Some key, accessTime)
      else oldest_scan rest (oldestKey, oldestTime))"

text \<open>\<open>if (oldestKey)\<close>: \<open>null\<close> and the empty string are falsy.\<close>

definition evictOldest :: "int \<Rightarrow> 'v cache_state \<Rightarrow> 'v cache_state" where
  "evictOldest now c =
     (if accessOrder c = [] then c
      else (case fst (oldest_scan (accessOrder c) (None, now)) of
              None \<Rightarrow> c
            | Some oldestKey \<Rightarrow>
                if oldestKey = [] then c
                else (let c1 = snd (cache_delete oldestKey c)
                      in c1\<lparr>stats := (stats c1)\<lparr>evictions := evictions (stats c1) + 1\<rparr>\<rparr>)))"

text \<open>\<open>set(key, value, customTtl = null)\<close>, with \<open>customTtl || this.ttl\<close>.\<close>

definition cache_set :: "int \<Rightarrow> string \<Rightarrow> 'v \<Rightarrow> int option \<Rightarrow> 'v cache_state \<Rightarrow> 'v cache_state" where
  "cache_set now key v customTtl c =
     (let ttl1 = (case customTtl of None \<Rightarrow> ttl c | Some t \<Rightarrow> if t = 0 then ttl c else t);
          expires1 = now + ttl1;
          c1 = (if length (cache c) \<ge> maxEntries c \<and> map_of (cache c) key = None
                then evictOldest now c else c);
          entry = \<lparr>entry_value = v, expires = expires1, created = now\<rparr>
      in c1\<lparr>cache := AList.update key entry (cache c1),
            accessOrder := AList.update key now (accessOrder c1),
            stats := (stats c1)\<lparr>sets := sets (stats c1) + 1\<rparr>\<rparr>)"

section \<open>Rows, sessions and configuration of the retrieval service\<close>

text \<open>
  JavaScript numbers are modelled as real numbers (exact arithmetic), counts as natural
  numbers and timestamps as integers (milliseconds). An optional property is an
  \<open>option\<close>: \<open>None\<close> is \<open>null\<close>/\<open>undefined\<close>.
\<close>

datatype js_error = TypeError | StoreFailure

text \<open>
  \<open>last_updated\<close>: falsy (\<open>NoDate\<close>), truthy but not a date (\<open>getTime()\<close> is
  \<open>NaN\<close>), or a date with its time in milliseconds.
\<close>

datatype js_date = NoDate | InvalidDate | DateMs int

record qa_fields =
  question :: "string option"
  answer :: "string option"

record qa_entry =
  code :: string
  data :: "qa_fields option"

text \<open>
  \<open>qa_data\<close> after \<open>JSON.parse\<close>: the parse fails, or it gives one value or an array of
  values; a value that is no object (\<open>null\<close>, a number) is \<open>None\<close>.
\<close>

datatype qa_payload = QAMalformed | QASingle "qa_entry option" | QAList "qa_entry option list"

record row =
  faq_id :: nat
  rubrique :: "string option"
  product_ref :: "string option"
  qa_data :: qa_payload
  last_updated :: js_date
  relevance :: "real option"
  enhanced_relevance :: "real option"

record session =
  languageCode :: "string option"
  s_rubrique :: "string option"
  productCode :: "string option"

text \<open>Truthiness of an optional string, and \<open>a || b\<close> on an optional number.\<close>

definition truthy :: "string option \<Rightarrow> bool" where
  "truthy v = (case v of None \<Rightarrow> False | Some s \<Rightarrow> s \<noteq> [])"

definition num_or :: "real option \<Rightarrow> real \<Rightarrow> real" where
  "num_or v d = (case v of None \<Rightarrow> d | Some x \<Rightarrow> if x = 0 then d else x)"

definition nat_or :: "nat option \<Rightarrow> nat \<Rightarrow> nat" where
  "nat_or v d = (case v of None \<Rightarrow> d | Some x \<Rightarrow> if x = 0 then d else x)"

definition int_or :: "int option \<Rightarrow> int \<Rightarrow> int" where
  "int_or v d = (case v of None \<Rightarrow> d | Some x \<Rightarrow> if x = 0 then d else x)"

record rag_options =
  opt_maxQueryVariants :: "nat option"
  opt_maxCandidatesPerVariant :: "nat option"
  opt_topKResults :: "nat option"
  opt_minScore :: "real option"
  opt_cacheTtl :: "int option"
  opt_recencyBoostDays :: "nat option"
  opt_rubriqueBoost :: "real option"
  opt_productBoost :: "real option"
  opt_variantDecay :: "real option"
  opt_fallbackLimit :: "nat option"

record rag_config =
  maxQueryVariants :: nat
  maxCandidatesPerVariant :: nat
  topKResults :: nat
  minScore :: real
  cacheTtl :: int
  recencyBoostDays :: nat
  rubriqueBoost :: real
  productBoost :: real
  variantDecay :: real
  fallbackLimit :: nat

text \<open>\<open>this.config\<close> as the constructor of \<open>RagSearchService\<close> builds it.\<close>

definition rag_config_of :: "rag_options \<Rightarrow> rag_config" where
  "rag_config_of config =
     \<lparr>maxQueryVariants = nat_or (opt_maxQueryVariants config) 4,
      maxCandidatesPerVariant = nat_or (opt_maxCandidatesPerVariant config) 12,
      topKResults = nat_or (opt_topKResults config) 3,
      minScore = (case opt_minScore config of None \<Rightarrow> 0.35 | Some m \<Rightarrow> m),
      cacheTtl = int_or (opt_cacheTtl config) 240000,
      recencyBoostDays = nat_or (opt_recencyBoostDays config) 30,
      rubriqueBoost = num_or (opt_rubriqueBoost config) 0.15,
      productBoost = num_or (opt_productBoost config) 0.2,
      variantDecay = num_or (opt_variantDecay config) 0.15,
      fallbackLimit = nat_or (opt_fallbackLimit config) 5\<rparr>"

definition default_options :: rag_options where
  "default_options =
     \<lparr>opt_maxQueryVariants = None, opt_maxCandidatesPerVariant = None,
      opt_topKResults = None, opt_minScore = None, opt_cacheTtl = None,
      opt_recencyBoostDays = None, opt_rubriqueBoost = None, opt_productBoost = None,
      opt_variantDecay = None, opt_fallbackLimit = None\<rparr>"

section \<open>Query variants\<close>

definition synonymMap :: "(string \<times> string list) list" where
  "synonymMap =
     [(''horaire'', [''heures'', ''ouverture'', ''fermeture'', ''disponibilite'']),
      (''prix'', [''tarif'', ''cout'', ''montant'', ''facture'']),
      (''support'', [''assistance'', ''aide'', ''contact'', ''service client'']),
      (''produit'', [''offre'', ''solution'', ''service'']),
      (''compte'', [''profil'', ''espace client'', ''identifiant'']),
      (''paiement'', [''reglement'', ''transaction'', ''facturation'']),
      (''inscription'', [''adhesion'', ''enregistrement'', ''creation compte''])]"

text \<open>
  \<open>this.synonymMap[word]\<close> reads a property of an object literal, so a word that names a
  property of \<open>Object.prototype\<close> finds that inherited value: it is truthy and has no
  \<open>forEach\<close> (nor \<open>some\<close>), and the call on it throws a \<open>TypeError\<close>.
\<close>

definition object_prototype_keys :: "string list" where
  "object_prototype_keys =
     [''constructor'', ''__defineGetter__'', ''__defineSetter__'', ''hasOwnProperty'',
      ''__lookupGetter__'', ''__lookupSetter__'', ''isPrototypeOf'',
      ''propertyIsEnumerable'', ''toString'', ''valueOf'', ''__proto__'',
      ''toLocaleString'']"

text \<open>\<open>Set.add\<close> on a \<open>Set\<close> kept in insertion order.\<close>

definition set_add :: "'a \<Rightarrow> 'a list \<Rightarrow> 'a list" where
  "set_add x xs = (if x \<in> set xs then xs else xs @ [x])"

definition expand_word :: "string \<Rightarrow> string \<Rightarrow> string list \<Rightarrow> js_error + string list" where
  "expand_word query word variants =
     (case map_of synonymMap word of
        Some syns \<Rightarrow>
          Inr (foldl (\<lambda>vs syn. set_add (replace_first query word syn) vs) variants syns)
      | None \<Rightarrow>
          if word \<in> set object_prototype_keys then Inl TypeError else Inr variants)"

fun expand_words :: "string \<Rightarrow> string list \<Rightarrow> string list \<Rightarrow> js_error + string list" where
  "expand_words query [] variants = Inr variants"
| "expand_words query (word # rest) variants =
     (case expand_word query word variants of
        Inl e \<Rightarrow> Inl e
      | Inr variants1 \<Rightarrow> expand_words query rest variants1)"

definition expandSynonyms :: "string \<Rightarrow> js_error + string list" where
  "expandSynonyms query = expand_words query (split_char CHR '' '' query) []"

record variant_filters =
  vf_languageCode :: "string option"
  vf_rubrique :: "string option"
  vf_productCode :: "string option"

record variant =
  query :: string
  weight :: real
  reason :: string
  filters :: variant_filters
  allowFallback :: bool
  cacheKey :: string

text \<open>The default \<open>sort()\<close> of strings: by code units.\<close>

fun str_less :: "string \<Rightarrow> string \<Rightarrow> bool" where
  "str_less [] [] = False"
| "str_less [] (y # ys) = True"
| "str_less (x # xs) [] = False"
| "str_less (x # xs) (y # ys) =
     (code_unit x < code_unit y \<or> (x = y \<and> str_less xs ys))"

fun str_insert :: "string \<Rightarrow> string list \<Rightarrow> string list" where
  "str_insert x [] = [x]"
| "str_insert x (y # ys) = (if str_less x y then x # y # ys else y # str_insert x ys)"

definition str_sort :: "string list \<Rightarrow> string list" where
  "str_sort xs = foldl (\<lambda>acc x. str_insert x acc) [] xs"

fun join :: "'a list \<Rightarrow> 'a list list \<Rightarrow> 'a list" where
  "join sep [] = []"
| "join sep [x] = x"
| "join sep (x # y # ys) = x @ sep @ join sep (y # ys)"

definition buildCacheKey :: "string \<Rightarrow> variant_filters \<Rightarrow> string" where
  "buildCacheKey q fs =
     (let entries = [(''languageCode'', vf_languageCode fs), (''rubrique'', vf_rubrique fs),
                     (''productCode'', vf_productCode fs)];
          kept = filter (\<lambda>(key, v). truthy v) entries;
          filterString = join ''|'' (str_sort (map (\<lambda>(key, v). key @ '':'' @ the v) kept))
      in ''rag:'' @ q @ '':'' @ filterString)"

text \<open>The object that \<open>pushVariant\<close> pushes: the variant with its cache key.\<close>

definition keyed_variant :: "string \<Rightarrow> real \<Rightarrow> string \<Rightarrow> variant_filters \<Rightarrow> bool \<Rightarrow> variant" where
  "keyed_variant q w r fs fb =
     \<lparr>query = q, weight = w, reason = r, filters = fs, allowFallback = fb,
      cacheKey = buildCacheKey q fs\<rparr>"

definition pushVariant ::
  "rag_config \<Rightarrow> variant list \<Rightarrow> string \<Rightarrow> real \<Rightarrow> string \<Rightarrow> variant_filters \<Rightarrow> bool \<Rightarrow> variant list"
where
  "pushVariant cfg variants q w r fs fb =
     (if length variants \<ge> maxQueryVariants cfg then variants
      else variants @ [keyed_variant q w r fs fb])"

definition buildQueryVariants :: "rag_config \<Rightarrow> string \<Rightarrow> session \<Rightarrow> js_error + variant list" where
  "buildQueryVariants cfg q s =
     (let baseFilters = \<lparr>vf_languageCode = languageCode s, vf_rubrique = s_rubrique s,
                         vf_productCode = productCode s\<rparr>;
          variants0 = pushVariant cfg [] q 1.0 ''base'' baseFilters True;
          variants1 =
            (if truthy (productCode s)
             then pushVariant cfg variants0 (trim (the (productCode s) @ '' '' @ q))
                    (1.0 - variantDecay cfg) ''product''
                    (baseFilters\<lparr>vf_productCode := productCode s\<rparr>) True
             else variants0);
          variants2 =
            (if truthy (s_rubrique s) \<and> s_rubrique s \<noteq> Some ''general''
             then pushVariant cfg variants1
                    (trim (replace_first (the (s_rubrique s)) ''_'' '' '' @ '' '' @ q))
                    (1.0 - variantDecay cfg) ''rubrique''
                    (baseFilters\<lparr>vf_rubrique := s_rubrique s\<rparr>) False
             else variants1)
      in case expandSynonyms q of
           Inl e \<Rightarrow> Inl e
         | Inr keywordVariants \<Rightarrow>
             Inr (foldl (\<lambda>variants (index, variantQuery).
                           pushVariant cfg variants variantQuery
                             (max 0.3 (1 - (real index + 1) * variantDecay cfg))
                             ''synonym'' baseFilters (index = 0))
                        variants2 (enumerate 0 keywordVariants)))"

section \<open>Search filters and the fallback chain\<close>

record search_filters =
  sf_languageCode :: "string option"
  sf_rubrique :: "string option"
  sf_productRef :: "string option"
  sf_limit :: "nat option"

definition buildFilters :: "rag_config \<Rightarrow> session \<Rightarrow> variant \<Rightarrow> search_filters" where
  "buildFilters cfg s v =
     \<lparr>sf_languageCode = languageCode s,
      sf_rubrique =
        (if truthy (vf_rubrique (filters v)) then vf_rubrique (filters v)
         else if truthy (s_rubrique s) \<and> s_rubrique s \<noteq> Some ''general'' then s_rubrique s
         else None),
      sf_productRef =
        (if truthy (vf_productCode (filters v)) then vf_productCode (filters v)
         else if truthy (productCode s) then productCode s
         else None),
      sf_limit = Some (maxCandidatesPerVariant cfg)\<rparr>"

definition keep_truthy :: "string option \<Rightarrow> string option" where
  "keep_truthy v = (if truthy v then v else None)"

definition normalizeFilters :: "search_filters \<Rightarrow> search_filters" where
  "normalizeFilters fs =
     \<lparr>sf_languageCode = keep_truthy (sf_languageCode fs),
      sf_rubrique = keep_truthy (sf_rubrique fs),
      sf_productRef = keep_truthy (sf_productRef fs),
      sf_limit = (case sf_limit fs of None \<Rightarrow> None | Some l \<Rightarrow> if l = 0 then None else Some l)\<rparr>"

text \<open>
  \<open>buildFallbackFilterVariants\<close>: a variant is pushed unless one with the same
  \<open>JSON.stringify\<close> key is present. All the variants list their properties in the order
  of \<open>normalizeFilters\<close> and \<open>JSON.stringify\<close> leaves an \<open>undefined\<close> property out, so
  two keys are equal exactly when the two filter objects are.
\<close>

definition buildFallbackFilterVariants :: "search_filters \<Rightarrow> search_filters list" where
  "buildFallbackFilterVariants fs =
     (let normalized = normalizeFilters fs;
          variants0 = set_add normalized [];
          variants1 = (if sf_productRef normalized \<noteq> None
                       then set_add (normalized\<lparr>sf_productRef := None\<rparr>) variants0
                       else variants0);
          variants2 = (if sf_rubrique normalized \<noteq> None
                       then set_add (normalized\<lparr>sf_rubrique := None\<rparr>) variants1
                       else variants1);
          variants3 = set_add (normalized\<lparr>sf_productRef := None, sf_rubrique := None\<rparr>) variants2;
          variants4 = set_add \<lparr>sf_languageCode = sf_languageCode normalized, sf_rubrique = None,
                               sf_productRef = None, sf_limit = sf_limit normalized\<rparr> variants3
      in set_add \<lparr>sf_languageCode = None, sf_rubrique = None, sf_productRef = None,
                  sf_limit = sf_limit normalized\<rparr> variants4)"

text \<open>The candidate store: each of its two searches returns rows or throws.\<close>

record database =
  searchFaqs :: "string \<Rightarrow> search_filters \<Rightarrow> js_error + row list"
  searchFaqContent :: "string \<Rightarrow> search_filters \<Rightarrow> js_error + row list"

text \<open>The loop of \<open>searchFallback\<close>: a failure of the store is caught and the loop goes on.\<close>

fun fallback_loop :: "database \<Rightarrow> string \<Rightarrow> nat \<Rightarrow> search_filters list \<Rightarrow> row list option" where
  "fallback_loop db q limitOverride [] = None"
| "fallback_loop db q limitOverride (v # rest) =
     (case searchFaqContent db q (v\<lparr>sf_limit := Some limitOverride\<rparr>) of
        Inr results \<Rightarrow>
          if results \<noteq> [] then Some results else fallback_loop db q limitOverride rest
      | Inl e \<Rightarrow> fallback_loop db q limitOverride rest)"

definition searchFallback :: "rag_config \<Rightarrow> database \<Rightarrow> string \<Rightarrow> search_filters \<Rightarrow> row list option" where
  "searchFallback cfg db q fs =
     (let fallbackFilters = buildFallbackFilterVariants fs;
          limitOverride = min (nat_or (sf_limit fs) (maxCandidatesPerVariant cfg)) (fallbackLimit cfg)
      in fallback_loop db q limitOverride fallbackFilters)"

text \<open>
  \<open>getCachedResults\<close>: the service may have no cache (\<open>None\<close>). A cached array is truthy
  even when empty. A failure of \<open>searchFaqs\<close> is caught and gives \<open>null\<close>.
\<close>

definition getCachedResults ::
  "rag_config \<Rightarrow> database \<Rightarrow> int \<Rightarrow> (row list) cache_state option \<Rightarrow> string \<Rightarrow> string
   \<Rightarrow> search_filters \<Rightarrow> row list option \<times> (row list) cache_state option"
where
  "getCachedResults cfg db now c key q fs =
     (let (cached, c1) = (case c of None \<Rightarrow> (None, None)
                          | Some cs \<Rightarrow> (let (v, cs1) = cache_get now key cs in (v, Some cs1)))
      in case cached of
           Some rows \<Rightarrow> (Some rows, c1)
         | None \<Rightarrow>
             (case searchFaqs db q fs of
                Inr results \<Rightarrow>
                  (Some results,
                   map_option (cache_set now key results (Some (cacheTtl cfg))) c1)
              | Inl e \<Rightarrow> (None, c1)))"

section \<open>Scoring and aggregation\<close>

record scored =
  faqId :: nat
  row :: row
  score :: real

record candidate = scored +
  variantReason :: string
  variantWeight :: real

record entry = scored +
  sources :: "string list"

record ranked = entry +
  rank :: nat

text \<open>The body of the \<open>map\<close> of \<open>scoreResults\<close>, for one row.\<close>

definition score_row :: "rag_config \<Rightarrow> int \<Rightarrow> variant \<Rightarrow> session \<Rightarrow> row \<Rightarrow> candidate" where
  "score_row cfg now v s result =
     (let recentCutoff = now - int (recencyBoostDays cfg) * 24 * 60 * 60 * 1000;
          baseScore = num_or (enhanced_relevance result) (num_or (relevance result) 0.2);
          score0 = baseScore * weight v;
          score1 = (if truthy (productCode s) \<and> product_ref result = productCode s
                    then score0 + productBoost cfg else score0);
          score2 = (if truthy (s_rubrique s) \<and> rubrique result = s_rubrique s
                    then score1 + rubriqueBoost cfg else score1);
          score3 =
            (case last_updated result of
               DateMs updatedAt \<Rightarrow>
                 if updatedAt \<ge> recentCutoff
                 then score2 + (0.1 + (real_of_int (updatedAt - recentCutoff)
                                        / real_of_int (now - recentCutoff + 1)) * 0.1)
                 else score2
             | _ \<Rightarrow> score2)
      in \<lparr>faqId = faq_id result, row = result, score = score3,
          variantReason = reason v, variantWeight = weight v\<rparr>)"

text \<open>
  The score as the specification words it, kept apart from the code for comparison:
  \<open>enhancedRelevance ?? relevance ?? 0.2\<close> (only \<open>null\<close>/\<open>undefined\<close> fall through) and
  each boost under the bare equality of the two references.
\<close>

definition spec_score :: "rag_config \<Rightarrow> int \<Rightarrow> variant \<Rightarrow> session \<Rightarrow> row \<Rightarrow> real" where
  "spec_score cfg now v s result =
     (let recentCutoff = now - int (recencyBoostDays cfg) * 24 * 60 * 60 * 1000
      in (case enhanced_relevance result of
            Some e \<Rightarrow> e
          | None \<Rightarrow> (case relevance result of Some x \<Rightarrow> x | None \<Rightarrow> 0.2)) * weight v
         + (if product_ref result = productCode s then productBoost cfg else 0)
         + (if rubrique result = s_rubrique s then rubriqueBoost cfg else 0)
         + (case last_updated result of
              DateMs updatedAt \<Rightarrow>
                if updatedAt \<ge> recentCutoff
                then 0.1 + (real_of_int (updatedAt - recentCutoff)
                            / real_of_int (now - recentCutoff + 1)) * 0.1
                else 0
            | _ \<Rightarrow> 0))"

definition scoreResults :: "rag_config \<Rightarrow> int \<Rightarrow> row list \<Rightarrow> variant \<Rightarrow> session \<Rightarrow> candidate list" where
  "scoreResults cfg now results v s = map (score_row cfg now v s) results"

text \<open>
  \<open>aggregateCandidates\<close>: the \<open>Map\<close> keyed by \<open>faqId\<close>, in insertion order. A candidate
  whose key is present raises the entry's score to the maximum and pushes its reason.
\<close>

fun merge_candidate :: "candidate \<Rightarrow> entry list \<Rightarrow> entry list" where
  "merge_candidate c [] =
     [\<lparr>faqId = faqId c, row = row c, score = score c, sources = [variantReason c]\<rparr>]"
| "merge_candidate c (existing # rest) =
     (if faqId existing = faqId c
      then existing\<lparr>score := max (score existing) (score c),
                    sources := sources existing @ [variantReason c]\<rparr> # rest
      else existing # merge_candidate c rest)"

definition aggregateCandidates :: "candidate list \<Rightarrow> entry list" where
  "aggregateCandidates candidates = foldl (\<lambda>aggregated c. merge_candidate c aggregated) [] candidates"

section \<open>\<open>retrieve\<close>\<close>

record retrieval =
  normalizedQuery :: string
  variants :: "variant list"
  rankedCandidates :: "ranked list"
  topCandidates :: "ranked list"

text \<open>\<open>sort((a, b) => b.score - a.score)\<close> is stable; then every entry gets its rank.\<close>

definition rank_entries :: "entry list \<Rightarrow> ranked list" where
  "rank_entries aggregated =
     map (\<lambda>(index, e). \<lparr>faqId = faqId e, row = row e, score = score e, sources = sources e,
                         rank = index + 1\<rparr>)
         (enumerate 0 (sort_key (\<lambda>e. - score e) aggregated))"

text \<open>One turn of the loop over the variants: the candidates so far and the cache.\<close>

definition retrieve_step ::
  "rag_config \<Rightarrow> database \<Rightarrow> int \<Rightarrow> session
   \<Rightarrow> candidate list \<times> (row list) cache_state option \<Rightarrow> variant
   \<Rightarrow> candidate list \<times> (row list) cache_state option"
where
  "retrieve_step cfg db now s acc v =
     (let (candidates, c) = acc;
          fs = buildFilters cfg s v;
          (results, c1) = getCachedResults cfg db now c (cacheKey v) (query v) fs;
          results1 = (if (results = None \<or> results = Some []) \<and> allowFallback v
                      then searchFallback cfg db (query v) fs else results)
      in case results1 of
           None \<Rightarrow> (candidates, c1)
         | Some rs \<Rightarrow>
             if rs \<noteq> [] then (candidates @ scoreResults cfg now rs v s, c1)
             else (candidates, c1))"

text \<open>
  \<open>retrieve\<close> returns \<open>null\<close> (\<open>None\<close>) or a result, with the cache as it leaves it; an
  exception that leaves \<open>retrieve\<close> is \<open>Inl\<close>. The store is a function of the query and
  the filters, and the clock is read as the one instant \<open>now\<close> during the call.
\<close>

definition retrieve ::
  "rag_config \<Rightarrow> database \<Rightarrow> int \<Rightarrow> (row list) cache_state option \<Rightarrow> string \<Rightarrow> session
   \<Rightarrow> js_error + (retrieval option \<times> (row list) cache_state option)"
where
  "retrieve cfg db now c q s =
     (let nq = normalizeQuery q
      in case buildQueryVariants cfg nq s of
           Inl e \<Rightarrow> Inl e
         | Inr vs \<Rightarrow>
             (let (candidates, c1) = foldl (retrieve_step cfg db now s) ([], c) vs
              in if candidates = [] then Inr (None, c1)
                 else (let aggregated = aggregateCandidates candidates;
                           ranked = rank_entries aggregated;
                           topK = take (topKResults cfg) ranked;
                           aboveThreshold = filter (\<lambda>candidate. score candidate \<ge> minScore cfg) topK
                       in Inr (Some \<lparr>normalizedQuery = nq, variants = vs,
                                     rankedCandidates = ranked,
                                     topCandidates = (if aboveThreshold \<noteq> [] then aboveThreshold
                                                      else topK)\<rparr>,
                               c1))))"

section \<open>The answer matcher (\<open>ChatService.findBestQAMatchEnhanced\<close>)\<close>



















section \<open>Query normalisation on all UTF-16 code units\<close>

text \<open>
  The strings of the sections above keep the code units below 256. A query may hold any
  UTF-16 code unit, and \<open>toLowerCase\<close> acts on the whole string before the regular
  expressions do. This section gives the steps of \<open>normalizeQuery\<close> and of
  \<open>normalizeSearchTerm\<close> on lists of code units of any type, with the white space test
  \<open>sp\<close>, the word character test \<open>wd\<close> and the space character \<open>blank\<close> as parameters,
  and then on the code units \<open>0 .. 0xFFFF\<close> as natural numbers.
\<close>

text \<open>\<open>s.trim()\<close>\<close>

definition trim_by :: "('a \<Rightarrow> bool) \<Rightarrow> 'a list \<Rightarrow> 'a list" where
  "trim_by sp s = rev (dropWhile sp (rev (dropWhile sp s)))"

text \<open>\<open>s.replace(/[^\w\s]/g, ' ')\<close>\<close>

definition replace_nonword_by :: "('a \<Rightarrow> bool) \<Rightarrow> ('a \<Rightarrow> bool) \<Rightarrow> 'a \<Rightarrow> 'a list \<Rightarrow> 'a list" where
  "replace_nonword_by wd sp blank s = map (\<lambda>c. if wd c \<or> sp c then c else blank) s"

text \<open>\<open>s.replace(/\s+/g, ' ')\<close>\<close>

fun collapse_run_by :: "('a \<Rightarrow> bool) \<Rightarrow> 'a \<Rightarrow> bool \<Rightarrow> 'a list \<Rightarrow> 'a list" where
  "collapse_run_by sp blank in_run [] = []"
| "collapse_run_by sp blank in_run (c # cs) =
     (if sp c
      then (if in_run then collapse_run_by sp blank True cs
            else blank # collapse_run_by sp blank True cs)
      else c # collapse_run_by sp blank False cs)"

definition collapse_ws_by :: "('a \<Rightarrow> bool) \<Rightarrow> 'a \<Rightarrow> 'a list \<Rightarrow> 'a list" where
  "collapse_ws_by sp blank s = collapse_run_by sp blank False s"

text \<open>
  The white space of \<open>\s\<close> and of \<open>trim\<close> (WhiteSpace and LineTerminator of ECMAScript):
  TAB, LF, VT, FF, CR, SPACE, NBSP, U+1680, U+2000..U+200A, U+2028, U+2029, U+202F,
  U+205F, U+3000 and U+FEFF. A word character of \<open>\w\<close> is one of A-Z, a-z, 0-9 and the
  underscore; the regular expressions carry no \<open>u\<close> or \<open>i\<close> flag, so they see one code
  unit at a time.
\<close>

definition unit_is_space :: "nat \<Rightarrow> bool" where
  "unit_is_space n =
     (n \<in> {9, 10, 11, 12, 13, 32, 160, 0x1680, 0x2028, 0x2029, 0x202F, 0x205F, 0x3000, 0xFEFF}
      \<or> (0x2000 \<le> n \<and> n \<le> 0x200A))"

definition unit_is_word_char :: "nat \<Rightarrow> bool" where
  "unit_is_word_char n =
     ((48 \<le> n \<and> n \<le> 57) \<or> (65 \<le> n \<and> n \<le> 90) \<or> n = 95 \<or> (97 \<le> n \<and> n \<le> 122))"

text \<open>
  \<open>String.prototype.toLowerCase\<close> follows the case tables of Unicode, which are not part
  of the program: \<open>normalizeQuery_units\<close> and \<open>normalizeSearchTerm_units\<close> take it as the
  parameter \<open>lc\<close>, a function from strings to strings.
\<close>

definition normalizeQuery_units :: "(nat list \<Rightarrow> nat list) \<Rightarrow> nat list \<Rightarrow> nat list" where
  "normalizeQuery_units lc q =
     trim_by unit_is_space
       (collapse_ws_by unit_is_space 32
          (replace_nonword_by unit_is_word_char unit_is_space 32
             (trim_by unit_is_space (lc q))))"

definition normalizeSearchTerm_units :: "(nat list \<Rightarrow> nat list) \<Rightarrow> nat list \<Rightarrow> nat list" where
  "normalizeSearchTerm_units lc searchTerm =
     trim_by unit_is_space
       (collapse_ws_by unit_is_space 32
          (replace_nonword_by unit_is_word_char unit_is_space 32
             (lc (trim_by unit_is_space searchTerm))))"

text \<open>
  \<open>toLowerCase\<close> on the code units used in the examples: below 256 it is \<open>lower_char\<close>;
  U+0130 (capital I with dot above) becomes \<open>i\<close> followed by U+0307, and U+212A (the
  Kelvin sign) becomes \<open>k\<close>. These two are the only characters above U+007F whose lower
  case holds a word character. Every other code unit is left as it is, which is what
  \<open>toLowerCase\<close> does for the characters without case only: the table is used on
  strings of code units below 256 and on the closed examples, and the statements about
  every string take \<open>lc\<close> instead.
\<close>

definition lower_unit :: "nat \<Rightarrow> nat list" where
  "lower_unit n =
     (if (65 \<le> n \<and> n \<le> 90) \<or> (192 \<le> n \<and> n \<le> 222 \<and> n \<noteq> 215) then [n + 32]
      else if n = 0x130 then [0x69, 0x307]
      else if n = 0x212A then [0x6B]
      else [n])"

definition toLowerCase_units :: "nat list \<Rightarrow> nat list" where
  "toLowerCase_units s = concat (map lower_unit s)"

text \<open>
  The maximal runs of word characters of a string: the string is cut at every character
  that is not a word character, and the empty pieces are dropped.
\<close>

fun word_pieces :: "('a \<Rightarrow> bool) \<Rightarrow> 'a list \<Rightarrow> 'a list list" where
  "word_pieces wd [] = [[]]"
| "word_pieces wd (c # cs) =
     (if wd c
      then (case word_pieces wd cs of
              [] \<Rightarrow> [[c]]
            | w # ws \<Rightarrow> (c # w) # ws)
      else [] # word_pieces wd cs)"

definition word_runs :: "('a \<Rightarrow> bool) \<Rightarrow> 'a list \<Rightarrow> 'a list list" where
  "word_runs wd s = filter (\<lambda>w. w \<noteq> []) (word_pieces wd s)"

section \<open>Properties of the normalisation\<close>

subsection \<open>Runs of word characters\<close>

lemma word_pieces_nonempty: "word_pieces wd s \<noteq> []"
  by (induction s) (auto split: list.splits)

lemma word_pieces_Cons_word:
  "wd c \<Longrightarrow> word_pieces wd (c # s) = (c # hd (word_pieces wd s)) # tl (word_pieces wd s)"
  using word_pieces_nonempty [of wd s] by (cases "word_pieces wd s") auto

lemma word_pieces_Cons_other: "\<not> wd c \<Longrightarrow> word_pieces wd (c # s) = [] # word_pieces wd s"
  by simp

lemma word_pieces_hd_tl: "word_pieces wd s = hd (word_pieces wd s) # tl (word_pieces wd s)"
  using word_pieces_nonempty [of wd s] by simp

lemma hd_word_pieces_Nil: "hd (word_pieces wd s) = [] \<longleftrightarrow> s = [] \<or> \<not> wd (hd s)"
proof (cases s)
  case Nil
  then show ?thesis by simp
next
  case (Cons c t)
  show ?thesis
    unfolding Cons
    by (cases "wd c") (simp_all only: word_pieces_Cons_word word_pieces_Cons_other list.sel
                         list.distinct simp_thms)
qed

lemma word_runs_Nil: "word_runs wd [] = []"
  by (simp add: word_runs_def)

lemma word_runs_Cons_other: "\<not> wd c \<Longrightarrow> word_runs wd (c # s) = word_runs wd s"
  by (simp add: word_runs_def)

lemma word_runs_Cons_word:
  "wd c \<Longrightarrow> word_runs wd (c # s)
             = (c # hd (word_pieces wd s)) # filter (\<lambda>w. w \<noteq> []) (tl (word_pieces wd s))"
  by (simp only: word_runs_def word_pieces_Cons_word filter.simps list.distinct simp_thms if_True)

lemma word_runs_hd_tl:
  "word_runs wd s
   = (if hd (word_pieces wd s) = [] then filter (\<lambda>w. w \<noteq> []) (tl (word_pieces wd s))
      else hd (word_pieces wd s) # filter (\<lambda>w. w \<noteq> []) (tl (word_pieces wd s)))"
proof -
  have "word_runs wd s
        = filter (\<lambda>w. w \<noteq> []) (hd (word_pieces wd s) # tl (word_pieces wd s))"
    unfolding word_runs_def using word_pieces_hd_tl [of wd s] by simp
  then show ?thesis by simp
qed

lemma word_pieces_chars: "w \<in> set (word_pieces wd s) \<Longrightarrow> c \<in> set w \<Longrightarrow> wd c"
proof (induction s arbitrary: w)
  case Nil
  then show ?case by simp
next
  case (Cons d s)
  show ?case
  proof (cases "wd d")
    case True
    from Cons.prems(1) have "w \<in> set ((d # hd (word_pieces wd s)) # tl (word_pieces wd s))"
      by (simp only: word_pieces_Cons_word [of wd d, OF True])
    then have "w = d # hd (word_pieces wd s) \<or> w \<in> set (tl (word_pieces wd s))"
      by simp
    moreover have "hd (word_pieces wd s) \<in> set (word_pieces wd s)"
      using word_pieces_nonempty [of wd s] by simp
    moreover have "set (tl (word_pieces wd s)) \<subseteq> set (word_pieces wd s)"
      using word_pieces_nonempty [of wd s] by (cases "word_pieces wd s") auto
    ultimately show ?thesis using Cons.IH Cons.prems(2) True by auto
  next
    case False
    with Cons.prems Cons.IH show ?thesis by auto
  qed
qed

lemma word_runs_chars: "w \<in> set (word_runs wd s) \<Longrightarrow> w \<noteq> [] \<and> (\<forall>c\<in>set w. wd c)"
  using word_pieces_chars [of w wd s] by (auto simp: word_runs_def)

lemma word_pieces_replace:
  "\<not> wd blank \<Longrightarrow> word_pieces wd (replace_nonword_by wd sp blank s) = word_pieces wd s"
  by (induction s) (auto simp: replace_nonword_by_def)

lemma word_runs_replace:
  "\<not> wd blank \<Longrightarrow> word_runs wd (replace_nonword_by wd sp blank s) = word_runs wd s"
  by (simp add: word_runs_def word_pieces_replace)

lemma word_runs_dropWhile:
  "(\<And>c. wd c \<Longrightarrow> \<not> sp c) \<Longrightarrow> word_runs wd (dropWhile sp s) = word_runs wd s"
proof (induction s)
  case Nil
  show ?case by simp
next
  case (Cons c s)
  show ?case
  proof (cases "sp c")
    case True
    with Cons.prems have "\<not> wd c" by blast
    with True Cons show ?thesis by (simp add: word_runs_Cons_other)
  next
    case False
    then show ?thesis by simp
  qed
qed

subsection \<open>Trailing white space\<close>

lemma strip_Cons:
  "rev (dropWhile sp (rev (c # x)))
   = (if sp c \<and> rev (dropWhile sp (rev x)) = [] then [] else c # rev (dropWhile sp (rev x)))"
proof (cases "\<forall>y\<in>set (rev x). sp y")
  case True
  then have "dropWhile sp (rev x @ [c]) = dropWhile sp [c]"
    by (intro dropWhile_append2) blast
  moreover from True have "dropWhile sp (rev x) = []" by (simp add: dropWhile_eq_Nil_conv)
  ultimately show ?thesis by simp
next
  case False
  then obtain y where y: "y \<in> set (rev x)" "\<not> sp y" by blast
  then have "dropWhile sp (rev x @ [c]) = dropWhile sp (rev x) @ [c]"
    by (intro dropWhile_append1) auto
  moreover from y have "dropWhile sp (rev x) \<noteq> []" by (auto simp: dropWhile_eq_Nil_conv)
  ultimately show ?thesis by simp
qed

lemma word_pieces_strip:
  assumes dj: "\<And>c. wd c \<Longrightarrow> \<not> sp c"
  shows "hd (word_pieces wd (rev (dropWhile sp (rev x)))) = hd (word_pieces wd x)
         \<and> filter (\<lambda>w. w \<noteq> []) (tl (word_pieces wd (rev (dropWhile sp (rev x)))))
           = filter (\<lambda>w. w \<noteq> []) (tl (word_pieces wd x))"
proof (induction x)
  case Nil
  show ?case by simp
next
  case (Cons c x)
  let ?sx = "rev (dropWhile sp (rev x))"
  from Cons have h: "hd (word_pieces wd ?sx) = hd (word_pieces wd x)"
    and t: "filter (\<lambda>w. w \<noteq> []) (tl (word_pieces wd ?sx))
            = filter (\<lambda>w. w \<noteq> []) (tl (word_pieces wd x))"
    by blast+
  have r: "word_runs wd ?sx = word_runs wd x"
    by (simp only: word_runs_hd_tl [of wd ?sx] word_runs_hd_tl [of wd x] h t)
  show ?case
  proof (cases "sp c \<and> ?sx = []")
    case True
    then have nw: "\<not> wd c" using dj by blast
    from True have sx: "?sx = []" by blast
    have "word_runs wd x = []" using r unfolding sx by (simp add: word_runs_Nil)
    then have f: "filter (\<lambda>w. w \<noteq> []) (word_pieces wd x) = []" by (simp add: word_runs_def)
    have e: "rev (dropWhile sp (rev (c # x))) = []"
      using True by (simp only: strip_Cons simp_thms if_True)
    show ?thesis unfolding e using nw f by simp
  next
    case False
    then have s: "rev (dropWhile sp (rev (c # x))) = c # ?sx"
      by (simp only: strip_Cons if_False)
    show ?thesis
    proof (cases "wd c")
      case True
      show ?thesis
        unfolding s
        by (simp only: word_pieces_Cons_word [of wd c, OF True] list.sel h t simp_thms)
    next
      case False
      have "filter (\<lambda>w. w \<noteq> []) (word_pieces wd ?sx) = filter (\<lambda>w. w \<noteq> []) (word_pieces wd x)"
        using r by (simp add: word_runs_def)
      with False show ?thesis unfolding s by simp
    qed
  qed
qed

lemma word_runs_strip:
  assumes "\<And>c. wd c \<Longrightarrow> \<not> sp c"
  shows "word_runs wd (rev (dropWhile sp (rev x))) = word_runs wd x"
  using word_pieces_strip [of wd sp x, OF assms]
  by (simp only: word_runs_hd_tl [of wd "rev (dropWhile sp (rev x))"] word_runs_hd_tl [of wd x])

lemma word_runs_trim:
  assumes "\<And>c. wd c \<Longrightarrow> \<not> sp c"
  shows "word_runs wd (trim_by sp s) = word_runs wd s"
  unfolding trim_by_def
  by (simp only: word_runs_strip [OF assms] word_runs_dropWhile [OF assms])

subsection \<open>Joining with one space\<close>

lemma join_Cons_Cons: "join sep ((c # w) # rs) = c # join sep (w # rs)"
  by (cases rs) simp_all

lemma join_Nil_Cons: "join sep ([] # rs) = (if rs = [] then [] else sep @ join sep rs)"
  by (cases rs) simp_all

lemma join_nonempty: "ws \<noteq> [] \<Longrightarrow> hd ws \<noteq> [] \<Longrightarrow> join sep ws \<noteq> []"
  by (cases ws; cases "tl ws") auto

lemma word_runs_join_Nil: "join sep (word_runs wd s) = [] \<longleftrightarrow> word_runs wd s = []"
proof
  assume j: "join sep (word_runs wd s) = []"
  show "word_runs wd s = []"
  proof (rule ccontr)
    assume n: "word_runs wd s \<noteq> []"
    then have "hd (word_runs wd s) \<in> set (word_runs wd s)" by simp
    then have "hd (word_runs wd s) \<noteq> []" using word_runs_chars by blast
    with n j show False using join_nonempty by blast
  qed
next
  assume "word_runs wd s = []"
  then show "join sep (word_runs wd s) = []" by simp
qed

subsection \<open>Collapsing the white space\<close>

lemma dropWhile_collapse_run:
  "sp blank \<Longrightarrow> dropWhile sp (collapse_run_by sp blank in_run u)
                  = collapse_run_by sp blank False (dropWhile sp u)"
  by (induction u arbitrary: in_run) simp_all

lemma strip_collapse_run:
  assumes sb: "sp blank" and dj: "\<And>c. wd c \<Longrightarrow> \<not> sp c"
  shows "(\<forall>c\<in>set u. sp c \<or> wd c) \<Longrightarrow>
         rev (dropWhile sp (rev (collapse_run_by sp blank True u)))
           = join [blank] (word_runs wd u)
         \<and> rev (dropWhile sp (rev (collapse_run_by sp blank False u)))
           = (if u \<noteq> [] \<and> sp (hd u) \<and> word_runs wd u \<noteq> []
              then blank # join [blank] (word_runs wd u)
              else join [blank] (word_runs wd u))"
proof (induction u)
  case Nil
  show ?case by (simp add: word_runs_Nil)
next
  case (Cons c v)
  let ?J = "join [blank] (word_runs wd v)"
  from Cons have ih1: "rev (dropWhile sp (rev (collapse_run_by sp blank True v))) = ?J"
    and ih2: "rev (dropWhile sp (rev (collapse_run_by sp blank False v)))
              = (if v \<noteq> [] \<and> sp (hd v) \<and> word_runs wd v \<noteq> [] then blank # ?J else ?J)"
    by simp_all
  show ?case
  proof (cases "sp c")
    case True
    then have nw: "\<not> wd c" using dj by blast
    have rs: "word_runs wd (c # v) = word_runs wd v" using nw by (rule word_runs_Cons_other)
    have a: "rev (dropWhile sp (rev (collapse_run_by sp blank True (c # v)))) = ?J"
      using True ih1 by simp
    have "rev (dropWhile sp (rev (collapse_run_by sp blank False (c # v))))
          = rev (dropWhile sp (rev (blank # collapse_run_by sp blank True v)))"
      using True by simp
    also have "\<dots> = (if ?J = [] then [] else blank # ?J)"
      by (simp only: strip_Cons ih1 sb simp_thms)
    also have "\<dots> = (if word_runs wd v \<noteq> [] then blank # ?J else ?J)"
      using word_runs_join_Nil [of "[blank]" wd v] by auto
    finally show ?thesis using a True by (simp add: rs)
  next
    case False
    with Cons.prems have w: "wd c" by simp
    let ?P = "word_pieces wd v"
    let ?rs = "filter (\<lambda>w. w \<noteq> []) (tl ?P)"
    have st: "rev (dropWhile sp (rev (collapse_run_by sp blank fl (c # v))))
              = c # rev (dropWhile sp (rev (collapse_run_by sp blank False v)))" for fl
      using False by (simp only: collapse_run_by.simps strip_Cons if_False simp_thms)
    have J: "join [blank] (word_runs wd (c # v)) = c # join [blank] (hd ?P # ?rs)"
      by (simp only: word_runs_Cons_word [of wd c, OF w] join_Cons_Cons)
    have inner: "(if v \<noteq> [] \<and> sp (hd v) \<and> word_runs wd v \<noteq> [] then blank # ?J else ?J)
                 = join [blank] (hd ?P # ?rs)"
    proof (cases "hd ?P = []")
      case True
      then have v: "v = [] \<or> \<not> wd (hd v)" by (simp add: hd_word_pieces_Nil)
      have r: "word_runs wd v = ?rs" using True by (simp add: word_runs_hd_tl [of wd v])
      show ?thesis
      proof (cases "?rs = []")
        case True
        with r \<open>hd ?P = []\<close> show ?thesis by simp
      next
        case False
        have "v \<noteq> []"
        proof
          assume "v = []"
          with False show False by simp
        qed
        with v have "\<not> wd (hd v)" by blast
        moreover from \<open>v \<noteq> []\<close> have "hd v \<in> set v" by simp
        ultimately have "sp (hd v)" using Cons.prems by auto
        with \<open>v \<noteq> []\<close> False r \<open>hd ?P = []\<close> show ?thesis
          by (simp add: join_Nil_Cons)
      qed
    next
      case False
      then have "v \<noteq> []" "wd (hd v)" by (simp_all add: hd_word_pieces_Nil)
      then have "\<not> sp (hd v)" using dj by blast
      moreover have "word_runs wd v = hd ?P # ?rs"
        using False by (simp add: word_runs_hd_tl [of wd v])
      ultimately show ?thesis by simp
    qed
    show ?thesis
      using False by (simp only: st ih2 inner J list.sel(1) simp_thms if_False)
  qed
qed

text \<open>
  The last three steps of the normalisation, on any string: what is left is the runs of
  word characters, joined by one space.
\<close>

lemma normalize_steps_word_runs:
  assumes sb: "sp blank" and dj: "\<And>c. wd c \<Longrightarrow> \<not> sp c"
  shows "trim_by sp (collapse_ws_by sp blank (replace_nonword_by wd sp blank t))
         = join [blank] (word_runs wd t)"
proof -
  let ?R = "replace_nonword_by wd sp blank t"
  let ?R' = "dropWhile sp ?R"
  have nb: "\<not> wd blank" using sb dj by blast
  have ch: "\<forall>c\<in>set ?R'. sp c \<or> wd c"
  proof
    fix c assume "c \<in> set ?R'"
    then have "c \<in> set ?R" by (rule set_dropWhileD)
    then show "sp c \<or> wd c" using sb by (auto simp: replace_nonword_by_def)
  qed
  have hd: "\<not> (?R' \<noteq> [] \<and> sp (hd ?R') \<and> word_runs wd ?R' \<noteq> [])"
    using hd_dropWhile [of sp ?R] by blast
  have "trim_by sp (collapse_ws_by sp blank ?R)
        = rev (dropWhile sp (rev (collapse_run_by sp blank False ?R')))"
    unfolding trim_by_def collapse_ws_by_def
    by (simp only: dropWhile_collapse_run [of sp blank, OF sb])
  also have "\<dots> = join [blank] (word_runs wd ?R')"
    using strip_collapse_run [OF sb dj ch, THEN conjunct2] hd by (simp only: if_False)
  also have "\<dots> = join [blank] (word_runs wd t)"
    by (simp only: word_runs_dropWhile [OF dj] word_runs_replace [of wd blank, OF nb])
  finally show ?thesis .
qed

subsection \<open>The two character types\<close>

lemma unit_space_is_space: "unit_is_space 32"
  by (simp add: unit_is_space_def)

lemma unit_word_not_space: "unit_is_word_char n \<Longrightarrow> \<not> unit_is_space n"
  by (auto simp: unit_is_word_char_def unit_is_space_def)

lemma space_is_space: "is_space CHR '' ''"
  by (simp add: is_space_def code_unit_def)

lemma word_not_space: "is_word_char c \<Longrightarrow> \<not> is_space c"
  by (auto simp: is_word_char_def is_space_def Let_def)

lemma trim_eq_by: "trim s = trim_by is_space s"
  by (simp add: trim_def trim_by_def)

lemma replace_nonword_eq_by: "replace_nonword s = replace_nonword_by is_word_char is_space CHR '' '' s"
  by (simp add: replace_nonword_def replace_nonword_by_def)

lemma collapse_run_eq_by: "collapse_run in_run s = collapse_run_by is_space CHR '' '' in_run s"
  by (induction s arbitrary: in_run) simp_all

lemma collapse_ws_eq_by: "collapse_ws s = collapse_ws_by is_space CHR '' '' s"
  by (simp add: collapse_ws_def collapse_ws_by_def collapse_run_eq_by)

lemma normalizeQuery_units_word_runs:
  "normalizeQuery_units lc q = join [32] (word_runs unit_is_word_char (lc q))"
  unfolding normalizeQuery_units_def
  by (simp only: normalize_steps_word_runs [of unit_is_space 32 unit_is_word_char,
                   OF unit_space_is_space unit_word_not_space]
                 word_runs_trim [of unit_is_word_char unit_is_space, OF unit_word_not_space])

lemma normalizeSearchTerm_units_word_runs:
  "normalizeSearchTerm_units lc q
   = join [32] (word_runs unit_is_word_char (lc (trim_by unit_is_space q)))"
  unfolding normalizeSearchTerm_units_def
  by (simp only: normalize_steps_word_runs [of unit_is_space 32 unit_is_word_char,
                   OF unit_space_is_space unit_word_not_space])

lemma normalizeQuery_word_runs:
  "normalizeQuery s = join '' '' (word_runs is_word_char (toLowerCase s))"
  unfolding normalizeQuery_def trim_eq_by replace_nonword_eq_by collapse_ws_eq_by
  by (simp only: normalize_steps_word_runs [of is_space "CHR '' ''" is_word_char,
                   OF space_is_space word_not_space]
                 word_runs_trim [of is_word_char is_space, OF word_not_space])

lemma lower_char_space: "is_space (lower_char c) = is_space c"
proof -
  have "code_unit (char_of (code_unit c + 32)) = code_unit c + 32" if "code_unit c \<le> 222"
    using that by (simp add: code_unit_def)
  then show ?thesis
    by (auto simp: lower_char_def is_space_def Let_def)
qed

lemma toLowerCase_trim: "toLowerCase (trim s) = trim (toLowerCase s)"
proof -
  have c: "is_space \<circ> lower_char = is_space" by (rule ext) (simp add: lower_char_space)
  show ?thesis
    unfolding toLowerCase_def trim_def
    by (simp only: dropWhile_map rev_map c)
qed

lemma normalizeSearchTerm_normalizeQuery: "normalizeSearchTerm s = normalizeQuery s"
  by (simp only: normalizeSearchTerm_def normalizeQuery_def toLowerCase_trim)

subsection \<open>The words of the normalised query\<close>

lemma split_char_nonempty: "split_char d s \<noteq> []"
  by (induction s) (auto split: list.splits)

lemma split_char_no_separator: "d \<notin> set x \<Longrightarrow> split_char d x = [x]"
  by (induction x) auto

lemma split_char_append_separator:
  "d \<notin> set x \<Longrightarrow> split_char d (x @ d # r) = x # split_char d r"
  by (induction x) auto

lemma split_char_join:
  "(\<forall>w\<in>set ws. d \<notin> set w) \<Longrightarrow>
   split_char d (join [d] ws) = (if ws = [] then [[]] else ws)"
proof (induction "[d]" ws rule: join.induct)
  case 1
  show ?case by simp
next
  case (2 x)
  then show ?case by (simp add: split_char_no_separator)
next
  case (3 x y ys)
  then show ?case by (simp add: split_char_append_separator)
qed

lemma split_char_normalizeQuery:
  "split_char CHR '' '' (normalizeQuery s)
   = (if word_runs is_word_char (toLowerCase s) = [] then [[]]
      else word_runs is_word_char (toLowerCase s))"
proof -
  have "\<forall>w\<in>set (word_runs is_word_char (toLowerCase s)). CHR '' '' \<notin> set w"
  proof
    fix w assume "w \<in> set (word_runs is_word_char (toLowerCase s))"
    then have "\<forall>c\<in>set w. is_word_char c" using word_runs_chars by blast
    moreover have "\<not> is_word_char CHR '' ''" using space_is_space word_not_space by blast
    ultimately show "CHR '' '' \<notin> set w" by blast
  qed
  then show ?thesis
    unfolding normalizeQuery_word_runs by (rule split_char_join)
qed

subsection \<open>The strings of code units below 256\<close>

lemma map_join: "map f (join sep ws) = join (map f sep) (map (map f) ws)"
  by (induction sep ws rule: join.induct) simp_all

lemma word_pieces_map:
  "(\<And>c. wd' (f c) = wd c) \<Longrightarrow> word_pieces wd' (map f s) = map (map f) (word_pieces wd s)"
  by (induction s) (auto split: list.splits)

lemma word_runs_map:
  assumes "\<And>c. wd' (f c) = wd c"
  shows "word_runs wd' (map f s) = map (map f) (word_runs wd s)"
  unfolding word_runs_def word_pieces_map [of wd' f wd, OF assms]
  by (simp add: filter_map comp_def)

lemma unit_is_word_char_code_unit: "unit_is_word_char (code_unit c) = is_word_char c"
  by (simp add: unit_is_word_char_def is_word_char_def Let_def)

lemma code_unit_less: "code_unit c < 256"
  by (simp add: code_unit_def)

lemma lower_unit_code_unit: "lower_unit (code_unit c) = [code_unit (lower_char c)]"
proof -
  have "code_unit (char_of (code_unit c + 32)) = code_unit c + 32" if "code_unit c \<le> 222"
    using that by (simp add: code_unit_def)
  then show ?thesis
    using code_unit_less [of c] by (auto simp: lower_unit_def lower_char_def Let_def)
qed

lemma toLowerCase_units_code_units:
  "toLowerCase_units (map code_unit s) = map code_unit (toLowerCase s)"
  by (induction s) (simp_all add: toLowerCase_units_def toLowerCase_def lower_unit_code_unit)

lemma normalizeQuery_code_units:
  "map code_unit (normalizeQuery s) = normalizeQuery_units toLowerCase_units (map code_unit s)"
proof -
  have sp: "map code_unit '' '' = [32]" by (simp add: code_unit_def)
  show ?thesis
    unfolding normalizeQuery_word_runs normalizeQuery_units_word_runs
              toLowerCase_units_code_units map_join sp
    by (simp only: word_runs_map [of unit_is_word_char code_unit is_word_char,
                     OF unit_is_word_char_code_unit])
qed

lemma word_pieces_append_separator:
  "\<not> wd c \<Longrightarrow> word_pieces wd (u @ c # v) = word_pieces wd u @ word_pieces wd v"
proof (induction u)
  case Nil
  then show ?case by simp
next
  case (Cons d u)
  show ?case
  proof (cases "wd d")
    case True
    have "word_pieces wd ((d # u) @ c # v)
          = (d # hd (word_pieces wd u @ word_pieces wd v))
            # tl (word_pieces wd u @ word_pieces wd v)"
      by (simp only: append_Cons word_pieces_Cons_word [of wd d, OF True]
            Cons.IH [OF Cons.prems])
    also have "\<dots> = ((d # hd (word_pieces wd u)) # tl (word_pieces wd u)) @ word_pieces wd v"
      using word_pieces_nonempty [of wd u] by simp
    also have "\<dots> = word_pieces wd (d # u) @ word_pieces wd v"
      by (simp only: word_pieces_Cons_word [of wd d, OF True])
    finally show ?thesis .
  next
    case False
    with Cons.IH [OF Cons.prems] show ?thesis by simp
  qed
qed

lemma word_runs_append_separator:
  "\<not> wd c \<Longrightarrow> word_runs wd (u @ c # v) = word_runs wd u @ word_runs wd v"
  by (simp add: word_runs_def word_pieces_append_separator)

lemma word_pieces_word: "list_all wd w \<Longrightarrow> word_pieces wd w = [w]"
  by (induction w) simp_all

lemma word_runs_word: "list_all wd w \<Longrightarrow> w \<noteq> [] \<Longrightarrow> word_runs wd w = [w]"
  by (simp add: word_runs_def word_pieces_word)

lemmas unit_defs = normalizeQuery_units_def normalizeSearchTerm_units_def trim_by_def
  collapse_ws_by_def replace_nonword_by_def toLowerCase_units_def lower_unit_def
  unit_is_space_def unit_is_word_char_def

text \<open>
  C10, as amended. For every input string and whatever \<open>toLowerCase\<close> returns for it,
  \<open>normalizeQuery\<close> returns the maximal runs of ASCII word characters (A-Z, a-z, 0-9,
  underscore) of the lower-cased string, joined by one space each: every other character
  of the lower-cased string, white space or not, stands between two words or is dropped
  at an end, and none is deleted from inside a word. \<open>normalizeSearchTerm\<close> returns the
  same for the trimmed string, lower-cased. The runs of word characters are what the
  three last facts on \<open>word_runs\<close> say: a character that is not a word character keeps
  the runs on its left apart from the runs on its right, a non-empty string of word
  characters is one run, and the empty string has none. On the strings of code units
  below 256 the two models agree, \<open>normalizeSearchTerm\<close> equals \<open>normalizeQuery\<close>, and
  splitting the normalised query at the spaces gives its runs of word characters. The
  accented letters U+00E9, U+00E8 and U+00E0 are not word characters, so the word
  \<open>Probl\<close> U+00E8 \<open>me\<close> becomes the two words \<open>probl\<close> and \<open>me\<close>.
\<close>

theorem normalizeQuery_joins_word_runs_of_lower_case:
  "normalizeQuery_units lc q = join [32] (word_runs unit_is_word_char (lc q))
   \<and> normalizeSearchTerm_units lc q
     = join [32] (word_runs unit_is_word_char (lc (trim_by unit_is_space q)))
   \<and> (\<not> unit_is_word_char c \<longrightarrow>
        word_runs unit_is_word_char (u @ c # v)
        = word_runs unit_is_word_char u @ word_runs unit_is_word_char v)
   \<and> (list_all unit_is_word_char w \<and> w \<noteq> [] \<longrightarrow> word_runs unit_is_word_char w = [w])
   \<and> word_runs unit_is_word_char [] = []
   \<and> map code_unit (normalizeQuery s) = normalizeQuery_units toLowerCase_units (map code_unit s)
   \<and> normalizeQuery s = join '' '' (word_runs is_word_char (toLowerCase s))
   \<and> normalizeSearchTerm s = normalizeQuery s
   \<and> split_char CHR '' '' (normalizeQuery s)
     = (if word_runs is_word_char (toLowerCase s) = [] then [[]]
        else word_runs is_word_char (toLowerCase s))
   \<and> unit_is_word_char 0xE9 = False \<and> unit_is_word_char 0xE8 = False
   \<and> unit_is_word_char 0xE0 = False
   \<and> normalizeQuery_units toLowerCase_units [0x50, 0x72, 0x6F, 0x62, 0x6C, 0xE8, 0x6D, 0x65]
     = [0x70, 0x72, 0x6F, 0x62, 0x6C, 0x20, 0x6D, 0x65]
   \<and> normalizeQuery (''Probl'' @ [CHR 0xE8] @ ''me'') = ''probl me''
   \<and> split_char CHR '' '' (normalizeQuery (''Probl'' @ [CHR 0xE8] @ ''me'')) = [''probl'', ''me'']"
proof (intro conjI impI)
  show "normalizeQuery_units lc q = join [32] (word_runs unit_is_word_char (lc q))"
    by (rule normalizeQuery_units_word_runs)
  show "normalizeSearchTerm_units lc q
        = join [32] (word_runs unit_is_word_char (lc (trim_by unit_is_space q)))"
    by (rule normalizeSearchTerm_units_word_runs)
  show "word_runs unit_is_word_char (u @ c # v)
        = word_runs unit_is_word_char u @ word_runs unit_is_word_char v"
    if "\<not> unit_is_word_char c"
    using that by (rule word_runs_append_separator)
  show "word_runs unit_is_word_char w = [w]" if "list_all unit_is_word_char w \<and> w \<noteq> []"
    using that word_runs_word [of unit_is_word_char w] by blast
  show "word_runs unit_is_word_char [] = []" by (rule word_runs_Nil)
  show "map code_unit (normalizeQuery s)
        = normalizeQuery_units toLowerCase_units (map code_unit s)"
    by (rule normalizeQuery_code_units)
  show "normalizeQuery s = join '' '' (word_runs is_word_char (toLowerCase s))"
    by (rule normalizeQuery_word_runs)
  show "normalizeSearchTerm s = normalizeQuery s"
    by (rule normalizeSearchTerm_normalizeQuery)
  show "split_char CHR '' '' (normalizeQuery s)
        = (if word_runs is_word_char (toLowerCase s) = [] then [[]]
           else word_runs is_word_char (toLowerCase s))"
    by (rule split_char_normalizeQuery)
  show "unit_is_word_char 0xE9 = False" by (simp add: unit_defs)
  show "unit_is_word_char 0xE8 = False" by (simp add: unit_defs)
  show "unit_is_word_char 0xE0 = False" by (simp add: unit_defs)
  show "normalizeQuery_units toLowerCase_units [0x50, 0x72, 0x6F, 0x62, 0x6C, 0xE8, 0x6D, 0x65]
        = [0x70, 0x72, 0x6F, 0x62, 0x6C, 0x20, 0x6D, 0x65]"
    by (simp add: unit_defs)
  show "normalizeQuery (''Probl'' @ [CHR 0xE8] @ ''me'') = ''probl me''" by code_simp
  show "split_char CHR '' '' (normalizeQuery (''Probl'' @ [CHR 0xE8] @ ''me''))
        = [''probl'', ''me'']"
    by code_simp
qed

text \<open>
  The Kelvin sign U+212A is neither an ASCII word character nor white space, and it is
  not replaced by a space: \<open>toLowerCase\<close> makes it the letter \<open>k\<close> before the regular
  expression runs, so \<open>5\<close> SPACE U+212A becomes \<open>5 k\<close>. In the same way the capital I with
  dot above, U+0130, leaves the letter \<open>i\<close> behind: U+0130 \<open>ci\<close> becomes \<open>i ci\<close>.
\<close>

theorem normalizeQuery_kelvin_sign_counterexample:
  "unit_is_word_char 0x212A = False \<and> unit_is_space 0x212A = False
   \<and> normalizeQuery_units toLowerCase_units [0x35, 0x20, 0x212A] = [0x35, 0x20, 0x6B]
   \<and> normalizeSearchTerm_units toLowerCase_units [0x35, 0x20, 0x212A] = [0x35, 0x20, 0x6B]
   \<and> unit_is_word_char 0x130 = False \<and> unit_is_space 0x130 = False
   \<and> normalizeQuery_units toLowerCase_units [0x130, 0x63, 0x69] = [0x69, 0x20, 0x63, 0x69]"
  by (simp add: unit_defs)

text \<open>
  The query \<open>L'heure ?\<close>: the apostrophe stands between the runs \<open>l\<close> and \<open>heure\<close>, and
  the normalised query is \<open>l heure\<close>.
\<close>

theorem normalizeQuery_joins_word_runs_of_lower_case_witness:
  "unit_is_word_char 0x27 = False
   \<and> list_all unit_is_word_char [0x68, 0x65, 0x75, 0x72, 0x65]
   \<and> toLowerCase_units [0x4C, 0x27, 0x68, 0x65, 0x75, 0x72, 0x65, 0x20, 0x3F]
     = [0x6C] @ 0x27 # [0x68, 0x65, 0x75, 0x72, 0x65, 0x20, 0x3F]
   \<and> word_runs unit_is_word_char ([0x6C] @ 0x27 # [0x68, 0x65, 0x75, 0x72, 0x65, 0x20, 0x3F])
     = word_runs unit_is_word_char [0x6C]
       @ word_runs unit_is_word_char [0x68, 0x65, 0x75, 0x72, 0x65, 0x20, 0x3F]
   \<and> word_runs unit_is_word_char [0x68, 0x65, 0x75, 0x72, 0x65] = [[0x68, 0x65, 0x75, 0x72, 0x65]]
   \<and> normalizeQuery_units toLowerCase_units [0x4C, 0x27, 0x68, 0x65, 0x75, 0x72, 0x65, 0x20, 0x3F]
     = [0x6C, 0x20, 0x68, 0x65, 0x75, 0x72, 0x65]"
proof -
  have a: "unit_is_word_char 0x27 = False" by (simp add: unit_defs)
  have b: "list_all unit_is_word_char [0x68, 0x65, 0x75, 0x72, 0x65]" by (simp add: unit_defs)
  have l: "toLowerCase_units [0x4C, 0x27, 0x68, 0x65, 0x75, 0x72, 0x65, 0x20, 0x3F]
           = [0x6C] @ 0x27 # [0x68, 0x65, 0x75, 0x72, 0x65, 0x20, 0x3F]"
    by (simp add: unit_defs)
  note t = normalizeQuery_joins_word_runs_of_lower_case
             [of toLowerCase_units "[0x4C, 0x27, 0x68, 0x65, 0x75, 0x72, 0x65, 0x20, 0x3F]"
                 "0x27" "[0x6C]" "[0x68, 0x65, 0x75, 0x72, 0x65, 0x20, 0x3F]"
                 "[0x68, 0x65, 0x75, 0x72, 0x65]"]
  from a have a': "\<not> unit_is_word_char 0x27" by simp
  have c: "word_runs unit_is_word_char ([0x6C] @ 0x27 # [0x68, 0x65, 0x75, 0x72, 0x65, 0x20, 0x3F])
           = word_runs unit_is_word_char [0x6C]
             @ word_runs unit_is_word_char [0x68, 0x65, 0x75, 0x72, 0x65, 0x20, 0x3F]"
    by (rule t [THEN conjunct2, THEN conjunct2, THEN conjunct1, THEN mp, OF a'])
  have "list_all unit_is_word_char [0x68, 0x65, 0x75, 0x72, 0x65]
        \<and> [0x68, 0x65, 0x75, 0x72, 0x65] \<noteq> ([] :: nat list)"
    using b by simp
  then have d: "word_runs unit_is_word_char [0x68, 0x65, 0x75, 0x72, 0x65]
                = [[0x68, 0x65, 0x75, 0x72, 0x65]]"
    by (rule t [THEN conjunct2, THEN conjunct2, THEN conjunct2, THEN conjunct1, THEN mp])
  have e: "normalizeQuery_units toLowerCase_units
             [0x4C, 0x27, 0x68, 0x65, 0x75, 0x72, 0x65, 0x20, 0x3F]
           = [0x6C, 0x20, 0x68, 0x65, 0x75, 0x72, 0x65]"
    by (simp add: unit_defs)
  from a b l c d e show ?thesis by - (intro conjI; assumption)
qed
section \<open>Properties of the stemmer\<close>

lemma stem_loop_unchanged: "\<forall>s\<in>set tbl. \<not> suffix_applies w s \<Longrightarrow> stem_loop w tbl = w"
  by (induction tbl) auto

lemma stem_loop_first:
  "i < length tbl \<Longrightarrow> suffix_applies w (tbl ! i) \<Longrightarrow> \<forall>j<i. \<not> suffix_applies w (tbl ! j)
   \<Longrightarrow> stem_loop w tbl = take (length w - length (tbl ! i)) w"
proof (induction tbl arbitrary: i)
  case Nil
  then show ?case by simp
next
  case (Cons s tbl)
  show ?case
  proof (cases i)
    case 0
    with Cons.prems show ?thesis by simp
  next
    case (Suc k)
    with Cons.prems have "\<not> suffix_applies w s" by auto
    moreover have "stem_loop w tbl = take (length w - length (tbl ! k)) w"
      using Cons.prems Suc by (intro Cons.IH) auto
    ultimately show ?thesis using Suc by simp
  qed
qed

lemma suffix_applies_cut:
  assumes "suffix_applies w s"
  shows "take (length w - length s) w @ s = w \<and> 3 \<le> length (take (length w - length s) w)"
proof -
  from assms have e: "drop (length w - length s) w = s" and l: "length s + 2 < length w"
    by (auto simp: suffix_applies_def endsWith_def)
  have "take (length w - length s) w @ drop (length w - length s) w = w"
    by (rule append_take_drop_id)
  with e have "take (length w - length s) w @ s = w" by simp
  moreover from l have "3 \<le> length (take (length w - length s) w)" by simp
  ultimately show ?thesis by blast
qed

lemma stem_loop_table:
  "((\<forall>s\<in>set tbl. \<not> suffix_applies word s) \<longrightarrow> stem_loop word tbl = word)
   \<and> (\<forall>i<length tbl. suffix_applies word (tbl ! i) \<and> (\<forall>j<i. \<not> suffix_applies word (tbl ! j))
        \<longrightarrow> stem_loop word tbl @ tbl ! i = word \<and> 3 \<le> length (stem_loop word tbl))"
  using stem_loop_unchanged stem_loop_first suffix_applies_cut by metis

text \<open>
  C5, as amended. \<open>stem(word)\<close> cuts one suffix and does not iterate: the first suffix in
  the order of the table (not the longest one) that the word ends with and that leaves
  at least three characters (\<open>word.length > suffix.length + 2\<close>); when no suffix of the
  table does, the word is returned unchanged. This holds for the table of the store
  adapter and for the table of the chat service.
\<close>

theorem stemWord_cuts_first_suffix_in_table_order:
  "((\<forall>s\<in>set db_frenchSuffixes. \<not> suffix_applies word s) \<longrightarrow> db_stemWord word = word)
   \<and> (\<forall>i<length db_frenchSuffixes.
        suffix_applies word (db_frenchSuffixes ! i)
        \<and> (\<forall>j<i. \<not> suffix_applies word (db_frenchSuffixes ! j))
        \<longrightarrow> db_stemWord word @ db_frenchSuffixes ! i = word \<and> 3 \<le> length (db_stemWord word))
   \<and> ((\<forall>s\<in>set chat_frenchSuffixes. \<not> suffix_applies word s) \<longrightarrow> stemWord word = word)
   \<and> (\<forall>i<length chat_frenchSuffixes.
        suffix_applies word (chat_frenchSuffixes ! i)
        \<and> (\<forall>j<i. \<not> suffix_applies word (chat_frenchSuffixes ! j))
        \<longrightarrow> stemWord word @ chat_frenchSuffixes ! i = word \<and> 3 \<le> length (stemWord word))"
  unfolding db_stemWord_def stemWord_def
  using stem_loop_table [of db_frenchSuffixes word] stem_loop_table [of chat_frenchSuffixes word]
  by blast

text \<open>
  The word \<open>pouvoir\<close> ends with \<open>oir\<close> and with \<open>ir\<close>; \<open>ir\<close> comes first in both tables and
  is the suffix that is cut, where the longest suffix would leave \<open>pouv\<close>. The word
  \<open>station\<close> loses \<open>tion\<close> although its longest suffix \<open>ation\<close> fails the guard.
\<close>

theorem stemWord_longest_suffix_counterexample:
  "db_stemWord ''pouvoir'' = ''pouvo'' \<and> spec_stem_longest db_frenchSuffixes ''pouvoir'' = ''pouv''
   \<and> stemWord ''pouvoir'' = ''pouvo'' \<and> spec_stem_longest chat_frenchSuffixes ''pouvoir'' = ''pouv''
   \<and> db_stemWord ''station'' = ''sta'' \<and> spec_stem_longest db_frenchSuffixes ''station'' = ''station''"
  by code_simp

theorem stemWord_cuts_first_suffix_in_table_order_witness:
  "list_all (\<lambda>s. \<not> suffix_applies ''prix'' s) db_frenchSuffixes \<and> db_stemWord ''prix'' = ''prix''
   \<and> list_all (\<lambda>s. \<not> suffix_applies ''prix'' s) chat_frenchSuffixes \<and> stemWord ''prix'' = ''prix''
   \<and> 11 < length db_frenchSuffixes \<and> suffix_applies ''contacter'' (db_frenchSuffixes ! 11)
   \<and> list_all (\<lambda>j. \<not> suffix_applies ''contacter'' (db_frenchSuffixes ! j)) [0..<11]
   \<and> db_stemWord ''contacter'' @ db_frenchSuffixes ! 11 = ''contacter''
   \<and> 15 < length chat_frenchSuffixes \<and> suffix_applies ''contacter'' (chat_frenchSuffixes ! 15)
   \<and> list_all (\<lambda>j. \<not> suffix_applies ''contacter'' (chat_frenchSuffixes ! j)) [0..<15]
   \<and> stemWord ''contacter'' @ chat_frenchSuffixes ! 15 = ''contacter''"
proof -
  have a: "\<forall>s\<in>set db_frenchSuffixes. \<not> suffix_applies ''prix'' s" by code_simp
  have b: "\<forall>s\<in>set chat_frenchSuffixes. \<not> suffix_applies ''prix'' s" by code_simp
  have c1: "11 < length db_frenchSuffixes" by code_simp
  have c2: "suffix_applies ''contacter'' (db_frenchSuffixes ! 11)" by code_simp
  have d: "\<forall>j<11. \<not> suffix_applies ''contacter'' (db_frenchSuffixes ! j)"
    by (simp add: All_less_Suc2 numeral_eq_Suc db_frenchSuffixes_def suffix_applies_def endsWith_def)
  have e1: "15 < length chat_frenchSuffixes" by code_simp
  have e2: "suffix_applies ''contacter'' (chat_frenchSuffixes ! 15)" by code_simp
  have f: "\<forall>j<15. \<not> suffix_applies ''contacter'' (chat_frenchSuffixes ! j)"
    by (simp add: All_less_Suc2 numeral_eq_Suc chat_frenchSuffixes_def suffix_applies_def endsWith_def)
  note t1 = stemWord_cuts_first_suffix_in_table_order [of "''prix''"]
  note t2 = stemWord_cuts_first_suffix_in_table_order [of "''contacter''"]
  have p1: "db_stemWord ''prix'' = ''prix''"
    using t1 [THEN conjunct1] a by (rule mp)
  have p2: "stemWord ''prix'' = ''prix''"
    using t1 [THEN conjunct2, THEN conjunct2, THEN conjunct1] b by (rule mp)
  have p3: "db_stemWord ''contacter'' @ db_frenchSuffixes ! 11 = ''contacter''
            \<and> 3 \<le> length (db_stemWord ''contacter'')"
    using c1 conjI [OF c2 d] by (rule t2 [THEN conjunct2, THEN conjunct1, rule_format])
  have p4: "stemWord ''contacter'' @ chat_frenchSuffixes ! 15 = ''contacter''
            \<and> 3 \<le> length (stemWord ''contacter'')"
    using e1 conjI [OF e2 f]
    by (rule t2 [THEN conjunct2, THEN conjunct2, THEN conjunct2, rule_format])
  have a': "list_all (\<lambda>s. \<not> suffix_applies ''prix'' s) db_frenchSuffixes"
    using a by (simp only: list_all_iff)
  have b': "list_all (\<lambda>s. \<not> suffix_applies ''prix'' s) chat_frenchSuffixes"
    using b by (simp only: list_all_iff)
  have d': "list_all (\<lambda>j. \<not> suffix_applies ''contacter'' (db_frenchSuffixes ! j)) [0..<11]"
    unfolding list_all_iff using d by auto
  have f': "list_all (\<lambda>j. \<not> suffix_applies ''contacter'' (chat_frenchSuffixes ! j)) [0..<15]"
    unfolding list_all_iff using f by auto
  show ?thesis
    using a' p1 b' p2 c1 c2 d' p3 [THEN conjunct1] e1 e2 f' p4 [THEN conjunct1]
    by - (intro conjI; assumption)
qed

section \<open>Eviction of the cache\<close>

text \<open>
  C6. A \<open>set\<close> of a new key into a cache at capacity is meant to evict the entry with the
  smallest access time, so that the size stays within the capacity. With a capacity of
  two it does so when the third key arrives one millisecond after the others: \<open>a\<close> is
  evicted. When the three distinct keys arrive within one millisecond nothing is
  evicted and the cache holds three entries: every access time equals the initial
  \<open>oldestTime\<close> of \<open>evictOldest\<close>, which is the present time, and the scan takes a key
  only for a strictly smaller one.
\<close>

theorem cache_set_same_millisecond_no_eviction:
  "(let c0 = new_cache \<lparr>cfg_maxEntries = 2, cfg_ttl = 0\<rparr> :: nat cache_state;
        c2 = cache_set 1000 ''b'' 2 None (cache_set 1000 ''a'' 1 None c0);
        later = cache_set 1001 ''c'' 3 None c2;
        same = cache_set 1000 ''c'' 3 None c2
    in maxEntries c2 = 2 \<and> map fst (cache c2) = [''a'', ''b'']
       \<and> map fst (cache later) = [''b'', ''c''] \<and> evictions (stats later) = 1
       \<and> map fst (cache same) = [''a'', ''b'', ''c''] \<and> evictions (stats same) = 0
       \<and> length (cache same) > maxEntries same)"
  by code_simp

section \<open>Properties of the scoring\<close>

lemma recency_bounds:
  fixes t cutoff now :: int
  assumes "cutoff \<le> t" "t \<le> now"
  shows "(0.1::real) \<le> 0.1 + (real_of_int (t - cutoff) / real_of_int (now - cutoff + 1)) * 0.1
         \<and> 0.1 + (real_of_int (t - cutoff) / real_of_int (now - cutoff + 1)) * 0.1 < (0.2::real)"
proof -
  define f where "f = real_of_int (t - cutoff) / real_of_int (now - cutoff + 1)"
  have d: "0 < real_of_int (now - cutoff + 1)" using assms by simp
  have n: "0 \<le> real_of_int (t - cutoff)" using assms by simp
  have f0: "0 \<le> f" unfolding f_def using d n by (intro divide_nonneg_pos)
  have "real_of_int (t - cutoff) < real_of_int (now - cutoff + 1)" using assms by simp
  then have f1: "f < 1" unfolding f_def using d by (simp only: divide_less_eq_1_pos)
  have "(0.1::real) \<le> 0.1 + f * 0.1 \<and> 0.1 + f * 0.1 < (0.2::real)"
    using f0 f1 by simp
  then show ?thesis unfolding f_def .
qed

lemma score_row_formula:
  "score (score_row cfg now v s r) =
     (if enhanced_relevance r \<noteq> None \<and> enhanced_relevance r \<noteq> Some 0 then the (enhanced_relevance r)
      else if relevance r \<noteq> None \<and> relevance r \<noteq> Some 0 then the (relevance r)
      else 0.2) * weight v
     + (if truthy (productCode s) \<and> product_ref r = productCode s then productBoost cfg else 0)
     + (if truthy (s_rubrique s) \<and> rubrique r = s_rubrique s then rubriqueBoost cfg else 0)
     + (case last_updated r of
          DateMs t \<Rightarrow>
            if now - int (recencyBoostDays cfg) * 86400000 \<le> t
            then 0.1 + (real_of_int (t - (now - int (recencyBoostDays cfg) * 86400000))
                        / real_of_int (now - (now - int (recencyBoostDays cfg) * 86400000) + 1)) * 0.1
            else 0
        | _ \<Rightarrow> 0)"
  by (auto simp: score_row_def num_or_def Let_def split: option.splits js_date.splits)

text \<open>
  C1, as amended. Every row scored by the orchestrator gives one candidate, in order, that
  carries the row's identifier and whose score is the base relevance times the weight of
  the variant plus the boosts. The base relevance is the enhanced relevance when it is
  truthy (neither absent nor zero), otherwise the relevance when it is truthy, otherwise
  0.2. The product boost is added when the session's product code is non-empty and the
  row's product reference equals it, the category boost when the session's category is
  non-empty and the row's category equals it. The recency boost is added when the row
  has a valid date of last update at or after the cutoff; it grows linearly with that
  date and lies between 0.1 and 0.2 when the date is within the window, that is not
  after the present time.
\<close>

theorem scoreResults_score_formula:
  "i < length results \<longrightarrow>
     (let r = results ! i;
          c = scoreResults cfg now results v s ! i;
          cutoff = now - int (recencyBoostDays cfg) * 86400000;
          recency = (case last_updated r of
                       DateMs t \<Rightarrow>
                         if cutoff \<le> t
                         then 0.1 + (real_of_int (t - cutoff) / real_of_int (now - cutoff + 1)) * 0.1
                         else 0
                     | _ \<Rightarrow> 0)
      in length (scoreResults cfg now results v s) = length results
         \<and> faqId c = faq_id r \<and> row c = r
         \<and> score c =
             (if enhanced_relevance r \<noteq> None \<and> enhanced_relevance r \<noteq> Some 0
              then the (enhanced_relevance r)
              else if relevance r \<noteq> None \<and> relevance r \<noteq> Some 0 then the (relevance r)
              else 0.2) * weight v
             + (if truthy (productCode s) \<and> product_ref r = productCode s
                then productBoost cfg else 0)
             + (if truthy (s_rubrique s) \<and> rubrique r = s_rubrique s
                then rubriqueBoost cfg else 0)
             + recency
         \<and> (\<forall>t. last_updated r = DateMs t \<and> cutoff \<le> t \<and> t \<le> now
                \<longrightarrow> 0.1 \<le> recency \<and> recency < 0.2))"
proof
  assume i: "i < length results"
  define cutoff where "cutoff = now - int (recencyBoostDays cfg) * 86400000"
  have c: "scoreResults cfg now results v s ! i = score_row cfg now v s (results ! i)"
    using i by (simp add: scoreResults_def)
  have l: "length (scoreResults cfg now results v s) = length results"
    by (simp add: scoreResults_def)
  have f: "faqId (score_row cfg now v s (results ! i)) = faq_id (results ! i)
           \<and> row (score_row cfg now v s (results ! i)) = results ! i"
    by (simp add: score_row_def Let_def)
  have b: "\<And>t. last_updated (results ! i) = DateMs t \<Longrightarrow> cutoff \<le> t \<Longrightarrow> t \<le> now \<Longrightarrow>
             (0.1::real) \<le> 0.1 + (real_of_int (t - cutoff) / real_of_int (now - cutoff + 1)) * 0.1
             \<and> 0.1 + (real_of_int (t - cutoff) / real_of_int (now - cutoff + 1)) * 0.1 < (0.2::real)"
    by (rule recency_bounds)
  show "let r = results ! i;
          c = scoreResults cfg now results v s ! i;
          cutoff = now - int (recencyBoostDays cfg) * 86400000;
          recency = (case last_updated r of
                       DateMs t \<Rightarrow>
                         if cutoff \<le> t
                         then 0.1 + (real_of_int (t - cutoff) / real_of_int (now - cutoff + 1)) * 0.1
                         else 0
                     | _ \<Rightarrow> 0)
      in length (scoreResults cfg now results v s) = length results
         \<and> faqId c = faq_id r \<and> row c = r
         \<and> score c =
             (if enhanced_relevance r \<noteq> None \<and> enhanced_relevance r \<noteq> Some 0
              then the (enhanced_relevance r)
              else if relevance r \<noteq> None \<and> relevance r \<noteq> Some 0 then the (relevance r)
              else 0.2) * weight v
             + (if truthy (productCode s) \<and> product_ref r = productCode s
                then productBoost cfg else 0)
             + (if truthy (s_rubrique s) \<and> rubrique r = s_rubrique s
                then rubriqueBoost cfg else 0)
             + recency
         \<and> (\<forall>t. last_updated r = DateMs t \<and> cutoff \<le> t \<and> t \<le> now
                \<longrightarrow> 0.1 \<le> recency \<and> recency < 0.2)"
    unfolding Let_def c
    apply (intro conjI)
        apply (rule l)
       apply (rule f [THEN conjunct1])
      apply (rule f [THEN conjunct2])
     apply (rule score_row_formula)
    using b unfolding cutoff_def by auto
qed

text \<open>
  A row whose enhanced relevance and relevance are both zero is scored from 0.2 (times
  the weight 0.85), where the wording with \<open>??\<close> gives zero; and a session whose
  product code is the empty string gets no product boost on a row whose product
  reference is the empty string too.
\<close>

theorem scoreResults_nullish_counterexample:
  "score (scoreResults (rag_config_of default_options) 2592000000
            [\<lparr>faq_id = 7, rubrique = Some ''general'', product_ref = Some ''P2'',
              qa_data = QAMalformed, last_updated = NoDate, relevance = Some 0,
              enhanced_relevance = Some 0\<rparr>]
            \<lparr>query = ''tarif'', weight = 0.85, reason = ''synonym'',
             filters = \<lparr>vf_languageCode = None, vf_rubrique = None, vf_productCode = None\<rparr>,
             allowFallback = True, cacheKey = ''rag:tarif:''\<rparr>
            \<lparr>languageCode = Some ''fr'', s_rubrique = Some ''account'', productCode = Some ''P1''\<rparr>
          ! 0) = 17 / 100
   \<and> spec_score (rag_config_of default_options) 2592000000
        \<lparr>query = ''tarif'', weight = 0.85, reason = ''synonym'',
         filters = \<lparr>vf_languageCode = None, vf_rubrique = None, vf_productCode = None\<rparr>,
         allowFallback = True, cacheKey = ''rag:tarif:''\<rparr>
        \<lparr>languageCode = Some ''fr'', s_rubrique = Some ''account'', productCode = Some ''P1''\<rparr>
        \<lparr>faq_id = 7, rubrique = Some ''general'', product_ref = Some ''P2'',
         qa_data = QAMalformed, last_updated = NoDate, relevance = Some 0,
         enhanced_relevance = Some 0\<rparr> = 0
   \<and> score (scoreResults (rag_config_of default_options) 2592000000
            [\<lparr>faq_id = 8, rubrique = Some ''general'', product_ref = Some '''',
              qa_data = QAMalformed, last_updated = NoDate, relevance = Some 1,
              enhanced_relevance = None\<rparr>]
            \<lparr>query = ''tarif'', weight = 1, reason = ''base'',
             filters = \<lparr>vf_languageCode = None, vf_rubrique = None, vf_productCode = Some ''''\<rparr>,
             allowFallback = True, cacheKey = ''rag:tarif:''\<rparr>
            \<lparr>languageCode = Some ''fr'', s_rubrique = None, productCode = Some ''''\<rparr>
          ! 0) = 1
   \<and> spec_score (rag_config_of default_options) 2592000000
        \<lparr>query = ''tarif'', weight = 1, reason = ''base'',
         filters = \<lparr>vf_languageCode = None, vf_rubrique = None, vf_productCode = Some ''''\<rparr>,
         allowFallback = True, cacheKey = ''rag:tarif:''\<rparr>
        \<lparr>languageCode = Some ''fr'', s_rubrique = None, productCode = Some ''''\<rparr>
        \<lparr>faq_id = 8, rubrique = Some ''general'', product_ref = Some '''',
         qa_data = QAMalformed, last_updated = NoDate, relevance = Some 1,
         enhanced_relevance = None\<rparr> = 6 / 5"
  by code_simp

theorem scoreResults_score_formula_witness:
  "(0::nat) < length [\<lparr>faq_id = 7, rubrique = Some ''account'', product_ref = Some ''P1'',
                       qa_data = QAMalformed, last_updated = DateMs 1296000000,
                       relevance = Some 2, enhanced_relevance = None\<rparr>]
   \<and> score (scoreResults (rag_config_of default_options) 2592000000
            [\<lparr>faq_id = 7, rubrique = Some ''account'', product_ref = Some ''P1'',
              qa_data = QAMalformed, last_updated = DateMs 1296000000,
              relevance = Some 2, enhanced_relevance = None\<rparr>]
            \<lparr>query = ''tarif'', weight = 0.85, reason = ''synonym'',
             filters = \<lparr>vf_languageCode = None, vf_rubrique = None, vf_productCode = None\<rparr>,
             allowFallback = True, cacheKey = ''rag:tarif:''\<rparr>
            \<lparr>languageCode = Some ''fr'', s_rubrique = Some ''account'', productCode = Some ''P1''\<rparr>
          ! 0)
     = 2 * 0.85 + 0.2 + 0.15 + (0.1 + (1296000000 / 2592000001) * 0.1)"
  using scoreResults_score_formula
          [of 0 "[\<lparr>faq_id = 7, rubrique = Some ''account'', product_ref = Some ''P1'',
                   qa_data = QAMalformed, last_updated = DateMs 1296000000,
                   relevance = Some 2, enhanced_relevance = None\<rparr>]"
              "rag_config_of default_options" 2592000000
              "\<lparr>query = ''tarif'', weight = 0.85, reason = ''synonym'',
                filters = \<lparr>vf_languageCode = None, vf_rubrique = None, vf_productCode = None\<rparr>,
                allowFallback = True, cacheKey = ''rag:tarif:''\<rparr>"
              "\<lparr>languageCode = Some ''fr'', s_rubrique = Some ''account'', productCode = Some ''P1''\<rparr>"]
  by (simp add: Let_def truthy_def rag_config_of_def default_options_def nat_or_def num_or_def)

section \<open>Properties of the aggregation\<close>

lemma merge_candidate_ids:
  "map faqId (merge_candidate c agg) =
     (if faqId c \<in> faqId ` set agg then map faqId agg else map faqId agg @ [faqId c])"
  by (induction agg) auto

lemma merge_candidate_distinct:
  "distinct (map faqId agg) \<Longrightarrow> distinct (map faqId (merge_candidate c agg))"
  by (simp add: merge_candidate_ids)

lemma merge_candidate_other:
  "e' \<in> set (merge_candidate c agg) \<Longrightarrow> faqId e' \<noteq> faqId c \<Longrightarrow> e' \<in> set agg"
  by (induction agg) (auto split: if_splits)

lemma merge_candidate_new:
  "faqId c \<notin> faqId ` set agg \<Longrightarrow> e' \<in> set (merge_candidate c agg) \<Longrightarrow> faqId e' = faqId c
   \<Longrightarrow> score e' = score c \<and> sources e' = [variantReason c]"
  by (induction agg) (auto split: if_splits)

lemma merge_candidate_existing:
  "distinct (map faqId agg) \<Longrightarrow> e \<in> set agg \<Longrightarrow> faqId e = faqId c
   \<Longrightarrow> e' \<in> set (merge_candidate c agg) \<Longrightarrow> faqId e' = faqId c
   \<Longrightarrow> score e' = max (score e) (score c) \<and> sources e' = sources e @ [variantReason c]"
proof (induction agg)
  case Nil
  then show ?case by simp
next
  case (Cons a agg)
  show ?case
  proof (cases "faqId a = faqId c")
    case True
    with Cons.prems have "e = a" by (auto simp: image_iff)
    moreover from True Cons.prems have "e' = a\<lparr>score := max (score a) (score c),
                                               sources := sources a @ [variantReason c]\<rparr>"
      by (auto simp: image_iff)
    ultimately show ?thesis by simp
  next
    case False
    with Cons.prems have "e \<in> set agg" "e' \<in> set (merge_candidate c agg)" by auto
    with Cons show ?thesis by auto
  qed
qed

lemma aggregateCandidates_snoc:
  "aggregateCandidates (cs @ [c]) = merge_candidate c (aggregateCandidates cs)"
  by (simp add: aggregateCandidates_def)

lemma aggregateCandidates_invariant:
  "distinct (map faqId (aggregateCandidates cs))
   \<and> faqId ` set (aggregateCandidates cs) = faqId ` set cs
   \<and> (\<forall>e\<in>set (aggregateCandidates cs).
         score e = Max (score ` {c \<in> set cs. faqId c = faqId e})
         \<and> sources e = map variantReason (filter (\<lambda>c. faqId c = faqId e) cs))"
proof (induction cs rule: rev_induct)
  case Nil
  show ?case by (simp add: aggregateCandidates_def)
next
  case (snoc c cs)
  let ?agg = "aggregateCandidates cs"
  let ?agg' = "merge_candidate c ?agg"
  from snoc have d: "distinct (map faqId ?agg)"
    and ids: "faqId ` set ?agg = faqId ` set cs"
    and ih: "\<And>e. e \<in> set ?agg \<Longrightarrow>
               score e = Max (score ` {x \<in> set cs. faqId x = faqId e})
               \<and> sources e = map variantReason (filter (\<lambda>x. faqId x = faqId e) cs)"
    by auto
  have d': "distinct (map faqId ?agg')"
    using d by (rule merge_candidate_distinct)
  have "set (map faqId ?agg') = insert (faqId c) (set (map faqId ?agg))"
    by (auto simp: merge_candidate_ids)
  then have ids': "faqId ` set ?agg' = faqId ` set (cs @ [c])"
    using ids by auto
  have ent: "score e' = Max (score ` {x \<in> set (cs @ [c]). faqId x = faqId e'})
             \<and> sources e' = map variantReason (filter (\<lambda>x. faqId x = faqId e') (cs @ [c]))"
    if e': "e' \<in> set ?agg'" for e'
  proof (cases "faqId e' = faqId c")
    case False
    then have "e' \<in> set ?agg" using e' merge_candidate_other by blast
    moreover have "{x \<in> set (cs @ [c]). faqId x = faqId e'} = {x \<in> set cs. faqId x = faqId e'}"
      using False by auto
    ultimately show ?thesis using ih [of e'] False by auto
  next
    case True
    let ?S = "{x \<in> set cs. faqId x = faqId c}"
    have S': "{x \<in> set (cs @ [c]). faqId x = faqId e'} = insert c ?S"
      using True by auto
    show ?thesis
    proof (cases "faqId c \<in> faqId ` set ?agg")
      case False
      have emp: "?S = {}"
      proof (rule ccontr)
        assume "?S \<noteq> {}"
        then obtain x where "x \<in> set cs" "faqId x = faqId c" by auto
        then have "faqId c \<in> faqId ` set cs" by (metis imageI)
        with ids False show False by simp
      qed
      then have "filter (\<lambda>x. faqId x = faqId c) cs = []"
        by (auto simp: filter_empty_conv)
      moreover have "score e' = score c \<and> sources e' = [variantReason c]"
        using False e' True by (rule merge_candidate_new)
      ultimately show ?thesis using True S' emp by simp
    next
      case in_agg: True
      then obtain e where e: "e \<in> set ?agg" "faqId e = faqId c" by auto
      have m: "score e' = max (score e) (score c) \<and> sources e' = sources e @ [variantReason c]"
        using d e e' True by (rule merge_candidate_existing)
      have ne: "?S \<noteq> {}" using in_agg ids by auto
      have "Max (score ` insert c ?S) = max (score c) (Max (score ` ?S))"
        using ne by simp
      moreover have "score e = Max (score ` ?S)
                     \<and> sources e = map variantReason (filter (\<lambda>x. faqId x = faqId c) cs)"
        using ih [OF e(1)] e(2) by simp
      ultimately show ?thesis using m True S' by (simp add: max.commute)
    qed
  qed
  show ?case
    unfolding aggregateCandidates_snoc using d' ids' ent by blast
qed

lemma map_enumerate_snd: "map (\<lambda>p. g (snd p)) (enumerate n xs) = map g xs"
  by (induction xs arbitrary: n) auto

lemma rank_entries_fields:
  "map (\<lambda>e. (faqId e, score e, sources e)) (rank_entries agg)
   = map (\<lambda>e. (faqId e, score e, sources e)) (sort_key (\<lambda>e. - score e) agg)"
  unfolding rank_entries_def map_map comp_def
  by (simp add: case_prod_beta map_enumerate_snd [where g = "\<lambda>e. (faqId e, score e, sources e)"])

lemma rank_entries_ids: "map faqId (rank_entries agg) = map faqId (sort_key (\<lambda>e. - score e) agg)"
proof -
  have "map fst (map (\<lambda>e. (faqId e, score e, sources e)) (rank_entries agg))
        = map fst (map (\<lambda>e. (faqId e, score e, sources e)) (sort_key (\<lambda>e. - score e) agg))"
    by (simp only: rank_entries_fields)
  then show ?thesis by (simp add: comp_def)
qed

lemma rank_entries_member:
  assumes "e' \<in> set (rank_entries agg)"
  shows "\<exists>e\<in>set agg. faqId e' = faqId e \<and> score e' = score e \<and> sources e' = sources e"
proof -
  from assms have "(faqId e', score e', sources e')
                   \<in> set (map (\<lambda>e. (faqId e, score e, sources e)) (rank_entries agg))"
    by auto
  then have "(faqId e', score e', sources e')
             \<in> set (map (\<lambda>e. (faqId e, score e, sources e)) (sort_key (\<lambda>e. - score e) agg))"
    by (simp only: rank_entries_fields)
  then show ?thesis by auto
qed

lemma rank_entries_distinct:
  "distinct (map faqId (rank_entries agg)) = distinct (map faqId agg)"
  by (simp add: rank_entries_ids distinct_map)

text \<open>
  C2, as amended. For every list of scored candidates, each FAQ identifier among them
  appears exactly once in the ranked candidates, with the maximum of the scores of the
  candidates that carry it; its sources are the reason tags of those candidates in the
  order of their arrival, one per candidate, so a reason that two variants share is
  listed twice.
\<close>

theorem rankedCandidates_merge_by_faqId:
  "distinct (map faqId (rank_entries (aggregateCandidates cs)))
   \<and> faqId ` set (rank_entries (aggregateCandidates cs)) = faqId ` set cs
   \<and> (\<forall>e\<in>set (rank_entries (aggregateCandidates cs)).
         score e = Max (score ` {c \<in> set cs. faqId c = faqId e})
         \<and> sources e = map variantReason (filter (\<lambda>c. faqId c = faqId e) cs))"
proof (intro conjI ballI)
  note inv = aggregateCandidates_invariant [of cs]
  show "distinct (map faqId (rank_entries (aggregateCandidates cs)))"
    using inv by (simp add: rank_entries_distinct)
  have "set (map faqId (rank_entries (aggregateCandidates cs)))
        = set (map faqId (aggregateCandidates cs))"
    by (simp add: rank_entries_ids)
  then show "faqId ` set (rank_entries (aggregateCandidates cs)) = faqId ` set cs"
    using inv by simp
  fix e'
  assume "e' \<in> set (rank_entries (aggregateCandidates cs))"
  then obtain e where e: "e \<in> set (aggregateCandidates cs)"
      "faqId e' = faqId e" "score e' = score e" "sources e' = sources e"
    using rank_entries_member by blast
  with inv show "score e' = Max (score ` {c \<in> set cs. faqId c = faqId e'})" by simp
  from e inv show "sources e' = map variantReason (filter (\<lambda>c. faqId c = faqId e') cs)" by simp
qed

text \<open>
  With the default configuration the query \<open>prix\<close> has the base variant and three synonym
  variants; a store that answers every search with the same row makes that one FAQ carry
  the reason \<open>synonym\<close> three times.
\<close>

theorem rankedCandidates_sources_counterexample:
  "(case retrieve (rag_config_of default_options)
           \<lparr>searchFaqs = (\<lambda>q fs. Inr [\<lparr>faq_id = 1, rubrique = None, product_ref = None,
                                        qa_data = QAMalformed, last_updated = NoDate,
                                        relevance = Some 1, enhanced_relevance = None\<rparr>]),
            searchFaqContent = (\<lambda>q fs. Inr [])\<rparr>
           0 None ''prix''
           \<lparr>languageCode = None, s_rubrique = None, productCode = None\<rparr> of
      Inr (Some res, c) \<Rightarrow> map sources (rankedCandidates res)
    | _ \<Rightarrow> [])
   = [[''base'', ''synonym'', ''synonym'', ''synonym'']]"
  by code_simp

theorem rankedCandidates_merge_by_faqId_witness:
  "(let r = \<lparr>faq_id = 1, rubrique = None, product_ref = None, qa_data = QAMalformed,
             last_updated = NoDate, relevance = Some 1, enhanced_relevance = None\<rparr>;
        cs = [\<lparr>faqId = 1, row = r, score = 0.9, variantReason = ''base'', variantWeight = 1\<rparr>,
              \<lparr>faqId = 2, row = r\<lparr>faq_id := 2\<rparr>, score = 0.5, variantReason = ''base'',
               variantWeight = 1\<rparr>,
              \<lparr>faqId = 1, row = r, score = 0.95, variantReason = ''synonym'',
               variantWeight = 0.85\<rparr>];
        e = \<lparr>faqId = 1, row = r, score = 0.95, sources = [''base'', ''synonym''], rank = 1\<rparr>
    in e \<in> set (rank_entries (aggregateCandidates cs))
       \<and> score e = Max (score ` {c \<in> set cs. faqId c = faqId e})
       \<and> sources e = map variantReason (filter (\<lambda>c. faqId c = faqId e) cs))"
proof -
  define r where "r = \<lparr>faq_id = 1, rubrique = None, product_ref = None, qa_data = QAMalformed,
             last_updated = NoDate, relevance = Some 1, enhanced_relevance = None\<rparr>"
  define cs where
    "cs = [\<lparr>faqId = 1, row = r, score = 0.9, variantReason = ''base'', variantWeight = 1\<rparr>,
              \<lparr>faqId = 2, row = r\<lparr>faq_id := 2\<rparr>, score = 0.5, variantReason = ''base'',
               variantWeight = 1\<rparr>,
              \<lparr>faqId = 1, row = r, score = 0.95, variantReason = ''synonym'',
               variantWeight = 0.85\<rparr>]"
  define e where
    "e = \<lparr>faqId = 1, row = r, score = 0.95, sources = [''base'', ''synonym''], rank = 1\<rparr>"
  have m: "e \<in> set (rank_entries (aggregateCandidates cs))"
    unfolding e_def cs_def r_def by code_simp
  have "score e = Max (score ` {c \<in> set cs. faqId c = faqId e})
        \<and> sources e = map variantReason (filter (\<lambda>c. faqId c = faqId e) cs)"
    using rankedCandidates_merge_by_faqId [of cs, THEN conjunct2, THEN conjunct2] m
    by (rule bspec)
  with m have "e \<in> set (rank_entries (aggregateCandidates cs))
       \<and> score e = Max (score ` {c \<in> set cs. faqId c = faqId e})
       \<and> sources e = map variantReason (filter (\<lambda>c. faqId c = faqId e) cs)"
    by (rule conjI)
  then show ?thesis
    unfolding Let_def e_def cs_def r_def .
qed

section \<open>Properties of the variant builder\<close>

lemma pushVariant_take:
  "pushVariant cfg (take (maxQueryVariants cfg) xs) q w r fs fb
   = take (maxQueryVariants cfg) (xs @ [keyed_variant q w r fs fb])"
  by (cases "maxQueryVariants cfg \<le> length xs") (auto simp: pushVariant_def)

lemma pushVariant_if_take:
  "(if c then pushVariant cfg (take (maxQueryVariants cfg) xs) q w r fs fb
    else take (maxQueryVariants cfg) xs)
   = take (maxQueryVariants cfg) (xs @ (if c then [keyed_variant q w r fs fb] else []))"
  by (cases c) (simp_all only: pushVariant_take if_True if_False append_Nil2)

lemma foldl_pushVariant_take:
  "foldl (\<lambda>vs (i, vq). pushVariant cfg vs vq (w i) r fs (fb i))
         (take (maxQueryVariants cfg) xs) ps
   = take (maxQueryVariants cfg) (xs @ map (\<lambda>(i, vq). keyed_variant vq (w i) r fs (fb i)) ps)"
proof (induction ps arbitrary: xs)
  case Nil
  show ?case by simp
next
  case (Cons p ps)
  obtain i vq where p: "p = (i, vq)" by (cases p)
  show ?case
    using Cons.IH [of "xs @ [keyed_variant vq (w i) r fs (fb i)]"]
    by (simp add: p pushVariant_take)
qed

text \<open>
  The variants in the order of their generation, before the cap: base, product,
  category, then one for each synonym rewrite.
\<close>

lemma buildQueryVariants_take:
  assumes "buildQueryVariants cfg q s = Inr vs"
  shows "\<exists>kws. expandSynonyms q = Inr kws \<and>
     vs = take (maxQueryVariants cfg)
            ([keyed_variant q 1 ''base''
                \<lparr>vf_languageCode = languageCode s, vf_rubrique = s_rubrique s,
                 vf_productCode = productCode s\<rparr> True]
             @ (if truthy (productCode s)
                then [keyed_variant (trim (the (productCode s) @ '' '' @ q))
                        (1 - variantDecay cfg) ''product''
                        \<lparr>vf_languageCode = languageCode s, vf_rubrique = s_rubrique s,
                         vf_productCode = productCode s\<rparr> True]
                else [])
             @ (if truthy (s_rubrique s) \<and> s_rubrique s \<noteq> Some ''general''
                then [keyed_variant
                        (trim (replace_first (the (s_rubrique s)) ''_'' '' '' @ '' '' @ q))
                        (1 - variantDecay cfg) ''rubrique''
                        \<lparr>vf_languageCode = languageCode s, vf_rubrique = s_rubrique s,
                         vf_productCode = productCode s\<rparr> False]
                else [])
             @ map (\<lambda>(i, vq). keyed_variant vq (max 0.3 (1 - (real i + 1) * variantDecay cfg))
                                 ''synonym''
                                 \<lparr>vf_languageCode = languageCode s, vf_rubrique = s_rubrique s,
                                  vf_productCode = productCode s\<rparr> (i = 0))
                   (enumerate 0 kws))"
proof -
  let ?M = "maxQueryVariants cfg"
  let ?bf = "\<lparr>vf_languageCode = languageCode s, vf_rubrique = s_rubrique s,
              vf_productCode = productCode s\<rparr>"
  let ?b = "keyed_variant q 1 ''base'' ?bf True"
  let ?p = "keyed_variant (trim (the (productCode s) @ '' '' @ q))
              (1 - variantDecay cfg) ''product'' ?bf True"
  let ?r = "keyed_variant (trim (replace_first (the (s_rubrique s)) ''_'' '' '' @ '' '' @ q))
              (1 - variantDecay cfg) ''rubrique'' ?bf False"
  let ?P = "if truthy (productCode s) then [?p] else []"
  let ?R = "if truthy (s_rubrique s) \<and> s_rubrique s \<noteq> Some ''general'' then [?r] else []"
  from assms obtain kws where k: "expandSynonyms q = Inr kws"
    by (auto simp: buildQueryVariants_def Let_def split: sum.splits)
  define v0 where "v0 = pushVariant cfg [] q 1 ''base'' ?bf True"
  define v1 where "v1 = (if truthy (productCode s)
             then pushVariant cfg v0 (trim (the (productCode s) @ '' '' @ q))
                    (1 - variantDecay cfg) ''product'' ?bf True
             else v0)"
  define v2 where "v2 = (if truthy (s_rubrique s) \<and> s_rubrique s \<noteq> Some ''general''
             then pushVariant cfg v1
                    (trim (replace_first (the (s_rubrique s)) ''_'' '' '' @ '' '' @ q))
                    (1 - variantDecay cfg) ''rubrique'' ?bf False
             else v1)"
  have e0: "v0 = take ?M [?b]"
    unfolding v0_def using pushVariant_take [of cfg "[]"] by simp
  have e1: "v1 = take ?M ([?b] @ ?P)"
    unfolding v1_def e0 by (rule pushVariant_if_take)
  have e2: "v2 = take ?M (([?b] @ ?P) @ ?R)"
    unfolding v2_def e1 by (rule pushVariant_if_take)
  have "buildQueryVariants cfg q s =
        Inr (foldl (\<lambda>vs (i, vq). pushVariant cfg vs vq
                                   (max 0.3 (1 - (real i + 1) * variantDecay cfg))
                                   ''synonym'' ?bf (i = 0))
                   v2 (enumerate 0 kws))"
    unfolding v2_def v1_def v0_def
    by (simp add: buildQueryVariants_def Let_def k)
  then have "buildQueryVariants cfg q s =
        Inr (foldl (\<lambda>vs (i, vq). pushVariant cfg vs vq
                                   (max 0.3 (1 - (real i + 1) * variantDecay cfg))
                                   ''synonym'' ?bf (i = 0))
                   (take ?M (([?b] @ ?P) @ ?R)) (enumerate 0 kws))"
    by (simp only: e2)
  also have "\<dots> = Inr (take ?M ((([?b] @ ?P) @ ?R)
                 @ map (\<lambda>(i, vq). keyed_variant vq (max 0.3 (1 - (real i + 1) * variantDecay cfg))
                                 ''synonym'' ?bf (i = 0)) (enumerate 0 kws)))"
    by (simp only: foldl_pushVariant_take
          [where w = "\<lambda>i. max 0.3 (1 - (real i + 1) * variantDecay cfg)" and fb = "\<lambda>i. i = 0"])
  finally have "vs = take ?M ((([?b] @ ?P) @ ?R)
                 @ map (\<lambda>(i, vq). keyed_variant vq (max 0.3 (1 - (real i + 1) * variantDecay cfg))
                                 ''synonym'' ?bf (i = 0)) (enumerate 0 kws))"
    using assms by simp
  with k show ?thesis by (simp only: append_assoc) blast
qed

lemma maxQueryVariants_positive: "0 < maxQueryVariants (rag_config_of opts)"
  by (simp add: rag_config_of_def nat_or_def split: option.splits)

lemma synonym_weight_antitone:
  fixes d :: real
  assumes "0 \<le> d" "i \<le> j"
  shows "max 0.3 (1 - (real j + 1) * d) \<le> max 0.3 (1 - (real i + 1) * d)"
proof -
  have "(real i + 1) * d \<le> (real j + 1) * d"
    using assms by (intro mult_right_mono) auto
  then show ?thesis by auto
qed

lemma synonym_weights_sorted:
  fixes d :: real
  assumes "0 \<le> d"
  shows "sorted_wrt (\<lambda>a b. b \<le> a) (map (\<lambda>i. max 0.3 (1 - (real i + 1) * d)) [0..<n])"
  unfolding sorted_wrt_iff_nth_less
proof (intro allI impI)
  fix i j
  assume "i < j" and j: "j < length (map (\<lambda>i. max 0.3 (1 - (real i + 1) * d)) [0..<n])"
  then have "max 0.3 (1 - (real j + 1) * d) \<le> max 0.3 (1 - (real i + 1) * d)"
    using assms by (intro synonym_weight_antitone) auto
  with \<open>i < j\<close> j
  show "map (\<lambda>i. max 0.3 (1 - (real i + 1) * d)) [0..<n] ! j
        \<le> map (\<lambda>i. max 0.3 (1 - (real i + 1) * d)) [0..<n] ! i"
    by simp
qed

lemma synonym_weight_le:
  fixes d :: real
  assumes "0 \<le> d" "d \<le> 0.7"
  shows "max 0.3 (1 - (real i + 1) * d) \<le> 1 - d"
proof -
  have "max 0.3 (1 - (real i + 1) * d) \<le> max 0.3 (1 - (real 0 + 1) * d)"
    using assms(1) by (intro synonym_weight_antitone) auto
  also have "\<dots> = 1 - d" using assms(2) by simp
  finally show ?thesis .
qed

lemma synonym_weight_less_1:
  fixes d :: real
  assumes "0 < d"
  shows "max 0.3 (1 - (real i + 1) * d) < 1"
proof -
  have "0 < (real i + 1) * d" using assms by (intro mult_pos_pos) auto
  then show ?thesis by auto
qed

lemma map_enumerate_fst: "map (\<lambda>p. g (fst p)) (enumerate n xs) = map g [n..<n + length xs]"
proof -
  have "map (\<lambda>p. g (fst p)) (enumerate n xs) = map g (map fst (enumerate n xs))"
    by (simp only: map_map comp_def)
  then show ?thesis by (simp only: map_fst_enumerate)
qed

lemma synonym_variant_weights:
  "map weight (map (\<lambda>(i, vq). keyed_variant vq (w i) r fs (fb i)) (enumerate 0 kws))
   = map w [0..<length kws]"
  using map_enumerate_fst [of w 0 kws]
  by (simp add: keyed_variant_def case_prod_beta comp_def)

lemma synonym_variant_weights_comp:
  "map (weight \<circ> (\<lambda>(i, vq). keyed_variant vq (w i) r fs (fb i))) (enumerate 0 kws)
   = map w [0..<length kws]"
  using synonym_variant_weights [of w r fs fb kws] by simp

lemma all_weights_sorted:
  fixes d :: real
  assumes "0 \<le> d" "d \<le> 0.7"
  shows "sorted_wrt (\<lambda>a b. b \<le> a)
           ([1] @ (if c1 then [1 - d] else []) @ (if c2 then [1 - d] else [])
            @ map (\<lambda>i. max 0.3 (1 - (real i + 1) * d)) [0..<n])"
proof -
  have s: "sorted_wrt (\<lambda>a b. b \<le> a) (map (\<lambda>i. max 0.3 (1 - (real i + 1) * d)) [0..<n])"
    using assms(1) by (rule synonym_weights_sorted)
  have le: "\<And>i. max 0.3 (1 - (real i + 1) * d) \<le> 1 - d"
    using assms by (rule synonym_weight_le)
  have le1: "max 0.3 (1 - (real i + 1) * d) \<le> 1" for i
    using le [of i] assms(1) by linarith
  show ?thesis
    using s le le1 assms(1) by (auto simp: sorted_wrt_append)
qed

lemma weight_keyed_variant: "weight (keyed_variant q w r fs fb) = w"
  by (simp add: keyed_variant_def)

lemma buildQueryVariants_weights_sorted:
  assumes "buildQueryVariants cfg q s = Inr vs"
    and "0 \<le> variantDecay cfg" "variantDecay cfg \<le> 0.7"
  shows "sorted_wrt (\<lambda>a b. weight b \<le> weight a) vs"
proof -
  let ?bf = "\<lparr>vf_languageCode = languageCode s, vf_rubrique = s_rubrique s,
              vf_productCode = productCode s\<rparr>"
  from buildQueryVariants_take [OF assms(1)] obtain kws where
    vs: "vs = take (maxQueryVariants cfg)
            ([keyed_variant q 1 ''base'' ?bf True]
             @ (if truthy (productCode s)
                then [keyed_variant (trim (the (productCode s) @ '' '' @ q))
                        (1 - variantDecay cfg) ''product'' ?bf True]
                else [])
             @ (if truthy (s_rubrique s) \<and> s_rubrique s \<noteq> Some ''general''
                then [keyed_variant
                        (trim (replace_first (the (s_rubrique s)) ''_'' '' '' @ '' '' @ q))
                        (1 - variantDecay cfg) ''rubrique'' ?bf False]
                else [])
             @ map (\<lambda>(i, vq). keyed_variant vq (max 0.3 (1 - (real i + 1) * variantDecay cfg))
                                 ''synonym'' ?bf (i = 0))
                   (enumerate 0 kws))" (is "vs = take _ ?ws")
    by blast
  have ws: "map weight ?ws = [1] @ (if truthy (productCode s) then [1 - variantDecay cfg] else [])
            @ (if truthy (s_rubrique s) \<and> s_rubrique s \<noteq> Some ''general''
               then [1 - variantDecay cfg] else [])
            @ map (\<lambda>i. max 0.3 (1 - (real i + 1) * variantDecay cfg)) [0..<length kws]"
    by (simp add: synonym_variant_weights_comp weight_keyed_variant)
  have "sorted_wrt (\<lambda>a b. b \<le> a) (map weight ?ws)"
    unfolding ws using assms(2,3) by (rule all_weights_sorted)
  then have "sorted_wrt (\<lambda>a b. weight b \<le> weight a) ?ws"
    by (simp only: sorted_wrt_map)
  then show ?thesis unfolding vs by (rule sorted_wrt_take)
qed

lemma buildQueryVariants_base_first:
  assumes "buildQueryVariants cfg q s = Inr vs" and "0 < maxQueryVariants cfg"
  shows "vs \<noteq> [] \<and> hd vs = keyed_variant q 1 ''base''
                          \<lparr>vf_languageCode = languageCode s, vf_rubrique = s_rubrique s,
                           vf_productCode = productCode s\<rparr> True"
proof -
  from buildQueryVariants_take [OF assms(1)] obtain rest where
    "vs = take (maxQueryVariants cfg)
            (keyed_variant q 1 ''base''
                \<lparr>vf_languageCode = languageCode s, vf_rubrique = s_rubrique s,
                 vf_productCode = productCode s\<rparr> True # rest)"
    by auto
  with assms(2) show ?thesis by (cases "maxQueryVariants cfg") auto
qed

lemma buildQueryVariants_later_lighter:
  assumes "buildQueryVariants cfg q s = Inr vs" and "0 < variantDecay cfg"
    and "v \<in> set (tl vs)"
  shows "weight v < 1"
proof -
  let ?bf = "\<lparr>vf_languageCode = languageCode s, vf_rubrique = s_rubrique s,
              vf_productCode = productCode s\<rparr>"
  from buildQueryVariants_take [OF assms(1)] obtain kws rest where
    vs: "vs = take (maxQueryVariants cfg) (keyed_variant q 1 ''base'' ?bf True # rest)" and
    rest: "rest = (if truthy (productCode s)
                then [keyed_variant (trim (the (productCode s) @ '' '' @ q))
                        (1 - variantDecay cfg) ''product'' ?bf True]
                else [])
             @ (if truthy (s_rubrique s) \<and> s_rubrique s \<noteq> Some ''general''
                then [keyed_variant
                        (trim (replace_first (the (s_rubrique s)) ''_'' '' '' @ '' '' @ q))
                        (1 - variantDecay cfg) ''rubrique'' ?bf False]
                else [])
             @ map (\<lambda>(i, vq). keyed_variant vq (max 0.3 (1 - (real i + 1) * variantDecay cfg))
                                 ''synonym'' ?bf (i = 0))
                   (enumerate 0 kws)"
    by auto
  have "set (tl vs) \<subseteq> set rest"
    unfolding vs by (cases "maxQueryVariants cfg") (auto dest: in_set_takeD)
  with assms(3) have "v \<in> set rest" by blast
  then show ?thesis
    unfolding rest using assms(2) synonym_weight_less_1 [OF assms(2)]
    by (auto simp: keyed_variant_def split: if_splits)
qed

lemma buildQueryVariants_synonym_weight:
  assumes "buildQueryVariants cfg q s = Inr vs" and "v \<in> set vs" and "reason v = ''synonym''"
  shows "\<exists>kws index. expandSynonyms q = Inr kws \<and> index < length kws
           \<and> query v = kws ! index
           \<and> weight v = max 0.3 (1 - (real index + 1) * variantDecay cfg)
           \<and> allowFallback v = (index = 0)"
proof -
  let ?bf = "\<lparr>vf_languageCode = languageCode s, vf_rubrique = s_rubrique s,
              vf_productCode = productCode s\<rparr>"
  from buildQueryVariants_take [OF assms(1)] obtain kws where
    k: "expandSynonyms q = Inr kws" and
    vs: "vs = take (maxQueryVariants cfg)
            ([keyed_variant q 1 ''base'' ?bf True]
             @ (if truthy (productCode s)
                then [keyed_variant (trim (the (productCode s) @ '' '' @ q))
                        (1 - variantDecay cfg) ''product'' ?bf True]
                else [])
             @ (if truthy (s_rubrique s) \<and> s_rubrique s \<noteq> Some ''general''
                then [keyed_variant
                        (trim (replace_first (the (s_rubrique s)) ''_'' '' '' @ '' '' @ q))
                        (1 - variantDecay cfg) ''rubrique'' ?bf False]
                else [])
             @ map (\<lambda>(i, vq). keyed_variant vq (max 0.3 (1 - (real i + 1) * variantDecay cfg))
                                 ''synonym'' ?bf (i = 0))
                   (enumerate 0 kws))"
    by blast
  from assms(2) have "v \<in> set ([keyed_variant q 1 ''base'' ?bf True]
             @ (if truthy (productCode s)
                then [keyed_variant (trim (the (productCode s) @ '' '' @ q))
                        (1 - variantDecay cfg) ''product'' ?bf True]
                else [])
             @ (if truthy (s_rubrique s) \<and> s_rubrique s \<noteq> Some ''general''
                then [keyed_variant
                        (trim (replace_first (the (s_rubrique s)) ''_'' '' '' @ '' '' @ q))
                        (1 - variantDecay cfg) ''rubrique'' ?bf False]
                else [])
             @ map (\<lambda>(i, vq). keyed_variant vq (max 0.3 (1 - (real i + 1) * variantDecay cfg))
                                 ''synonym'' ?bf (i = 0))
                   (enumerate 0 kws))"
    unfolding vs by (rule in_set_takeD)
  with assms(3) obtain i vq where
    "(i, vq) \<in> set (enumerate 0 kws)"
    "v = keyed_variant vq (max 0.3 (1 - (real i + 1) * variantDecay cfg)) ''synonym'' ?bf (i = 0)"
    by (auto simp: keyed_variant_def split: if_splits)
  then have "i < length kws \<and> query v = kws ! i
             \<and> weight v = max 0.3 (1 - (real i + 1) * variantDecay cfg)
             \<and> allowFallback v = (i = 0)"
    by (auto simp: in_set_enumerate_eq keyed_variant_def)
  with k show ?thesis by blast
qed

lemma expand_words_returns:
  "\<forall>w\<in>set ws. w \<notin> set object_prototype_keys \<Longrightarrow> \<exists>kws. expand_words q ws acc = Inr kws"
proof (induction ws arbitrary: acc)
  case Nil
  show ?case by simp
next
  case (Cons w ws)
  then have "w \<notin> set object_prototype_keys" by simp
  then have "\<exists>acc1. expand_word q w acc = Inr acc1"
    by (cases "map_of synonymMap w") (simp_all add: expand_word_def)
  then obtain acc1 where "expand_word q w acc = Inr acc1" ..
  with Cons show ?case by simp
qed

lemma buildQueryVariants_returns:
  assumes "\<forall>w\<in>set (split_char CHR '' '' q). w \<notin> set object_prototype_keys"
  shows "\<exists>vs. buildQueryVariants cfg q s = Inr vs"
proof -
  from assms obtain kws where "expandSynonyms q = Inr kws"
    unfolding expandSynonyms_def using expand_words_returns by blast
  then show ?thesis by (simp add: buildQueryVariants_def Let_def)
qed

text \<open>
  C3, as amended. For every query none of whose words names a property inherited from
  \<open>Object.prototype\<close>, \<open>buildQueryVariants\<close> returns a list. The first variant of a
  returned list is always the base variant: the query itself with weight 1.0 and
  \<open>allowFallback\<close> set. With a positive decay every later variant weighs strictly less
  than the base variant, and with a decay of at most 0.7 (the default is 0.15) the
  weights never increase in generation order. They do not decrease strictly: the
  product, the category and the first synonym variant share the weight \<open>1 - decay\<close>.
\<close>

theorem buildQueryVariants_base_first_weights_never_increase:
  "((\<forall>w\<in>set (split_char CHR '' '' q). w \<notin> set object_prototype_keys)
      \<longrightarrow> (\<exists>vs. buildQueryVariants (rag_config_of opts) q s = Inr vs))
   \<and> (buildQueryVariants (rag_config_of opts) q s = Inr vs \<longrightarrow>
        vs \<noteq> [] \<and> query (hd vs) = q \<and> weight (hd vs) = 1 \<and> allowFallback (hd vs)
        \<and> (0 < variantDecay (rag_config_of opts)
             \<longrightarrow> (\<forall>v\<in>set (tl vs). weight v < weight (hd vs)))
        \<and> (0 < variantDecay (rag_config_of opts) \<and> variantDecay (rag_config_of opts) \<le> 0.7
             \<longrightarrow> sorted_wrt (\<lambda>a b. weight b \<le> weight a) vs))"
proof (intro conjI impI)
  assume "\<forall>w\<in>set (split_char CHR '' '' q). w \<notin> set object_prototype_keys"
  then show "\<exists>vs. buildQueryVariants (rag_config_of opts) q s = Inr vs"
    by (rule buildQueryVariants_returns)
next
  assume r: "buildQueryVariants (rag_config_of opts) q s = Inr vs"
  note b = buildQueryVariants_base_first [OF r maxQueryVariants_positive]
  from b show "vs \<noteq> []" by simp
  from b show "query (hd vs) = q" by (simp add: keyed_variant_def)
  from b show w1: "weight (hd vs) = 1" by (simp add: keyed_variant_def)
  from b show "allowFallback (hd vs)" by (simp add: keyed_variant_def)
  show "\<forall>v\<in>set (tl vs). weight v < weight (hd vs)"
    if "0 < variantDecay (rag_config_of opts)"
    using buildQueryVariants_later_lighter [OF r that] w1 by simp
  show "sorted_wrt (\<lambda>a b. weight b \<le> weight a) vs"
    if "0 < variantDecay (rag_config_of opts) \<and> variantDecay (rag_config_of opts) \<le> 0.7"
    using that by (intro buildQueryVariants_weights_sorted [OF r]) auto
qed

text \<open>
  A session with a product code and the category \<open>sales_funnel\<close>, the query
  \<open>prix du support\<close>, the default configuration: the weights are 1, 0.85, 0.85, 0.85.
\<close>

theorem buildQueryVariants_strict_decrease_counterexample:
  "(case buildQueryVariants (rag_config_of default_options) ''prix du support''
           \<lparr>languageCode = Some ''fr'', s_rubrique = Some ''sales_funnel'',
            productCode = Some ''P1''\<rparr> of
      Inr vs \<Rightarrow> map weight vs
    | Inl e \<Rightarrow> []) = [1, 17 / 20, 17 / 20, 17 / 20]
   \<and> \<not> (case buildQueryVariants (rag_config_of default_options) ''prix du support''
               \<lparr>languageCode = Some ''fr'', s_rubrique = Some ''sales_funnel'',
                productCode = Some ''P1''\<rparr> of
          Inr vs \<Rightarrow> sorted_wrt (\<lambda>a b. weight b < weight a) vs
        | Inl e \<Rightarrow> False)"
  by code_simp

theorem buildQueryVariants_base_first_weights_never_increase_witness:
  "list_all (\<lambda>w. w \<notin> set object_prototype_keys) (split_char CHR '' '' ''prix du support'')
   \<and> buildQueryVariants (rag_config_of default_options) ''prix du support''
        \<lparr>languageCode = Some ''fr'', s_rubrique = Some ''sales_funnel'', productCode = Some ''P1''\<rparr>
      = Inr (projr (buildQueryVariants (rag_config_of default_options) ''prix du support''
               \<lparr>languageCode = Some ''fr'', s_rubrique = Some ''sales_funnel'',
                productCode = Some ''P1''\<rparr>))
   \<and> 0 < variantDecay (rag_config_of default_options)
   \<and> variantDecay (rag_config_of default_options) \<le> 0.7
   \<and> list_all (\<lambda>v. weight v < 1)
        (tl (projr (buildQueryVariants (rag_config_of default_options) ''prix du support''
               \<lparr>languageCode = Some ''fr'', s_rubrique = Some ''sales_funnel'',
                productCode = Some ''P1''\<rparr>)))
   \<and> sorted_wrt (\<lambda>a b. weight b \<le> weight a)
        (projr (buildQueryVariants (rag_config_of default_options) ''prix du support''
               \<lparr>languageCode = Some ''fr'', s_rubrique = Some ''sales_funnel'',
                productCode = Some ''P1''\<rparr>))
   \<and> length (projr (buildQueryVariants (rag_config_of default_options) ''prix du support''
               \<lparr>languageCode = Some ''fr'', s_rubrique = Some ''sales_funnel'',
                productCode = Some ''P1''\<rparr>)) = 4"
proof -
  define s where "s = \<lparr>languageCode = Some ''fr'', s_rubrique = Some ''sales_funnel'',
                        productCode = Some ''P1''\<rparr>"
  define vs where "vs = projr (buildQueryVariants (rag_config_of default_options)
                                 ''prix du support'' s)"
  have a: "list_all (\<lambda>w. w \<notin> set object_prototype_keys) (split_char CHR '' '' ''prix du support'')"
    by code_simp
  have r: "buildQueryVariants (rag_config_of default_options) ''prix du support'' s = Inr vs"
    unfolding vs_def s_def by code_simp
  have d: "0 < variantDecay (rag_config_of default_options)
           \<and> variantDecay (rag_config_of default_options) \<le> 0.7"
    by code_simp
  have n: "length vs = 4" unfolding vs_def s_def by code_simp
  note t = buildQueryVariants_base_first_weights_never_increase
             [of "''prix du support''" default_options s vs, THEN conjunct2, rule_format, OF r]
  have w1: "weight (hd vs) = 1" using t by blast
  have "\<forall>v\<in>set (tl vs). weight v < weight (hd vs)" using t d by blast
  then have l: "list_all (\<lambda>v. weight v < 1) (tl vs)"
    unfolding list_all_iff w1 .
  have so: "sorted_wrt (\<lambda>a b. weight b \<le> weight a) vs" using t d by blast
  show ?thesis
    using a r d [THEN conjunct1] d [THEN conjunct2] l so n
    unfolding vs_def s_def by - (intro conjI; assumption)
qed

text \<open>
  C4, as amended. For every query and session, a list that \<open>buildQueryVariants\<close>
  returns has at most \<open>maxQueryVariants\<close> entries; its first entry has weight 1.0 and
  reason \<open>base\<close>; every synonym variant is the rewrite at some index of the synonym
  expansion and weighs \<open>max(0.3, 1 - (index + 1) * decay)\<close>, with fallback for index 0
  only; and the weights never increase in generation order when the decay is positive
  and at most 0.7, as the default 0.15 is. A list is returned whenever no word of the
  query names a property inherited from \<open>Object.prototype\<close>.
\<close>

theorem buildQueryVariants_capped_non_increasing:
  "((\<forall>w\<in>set (split_char CHR '' '' q). w \<notin> set object_prototype_keys)
      \<longrightarrow> (\<exists>vs. buildQueryVariants (rag_config_of opts) q s = Inr vs))
   \<and> (buildQueryVariants (rag_config_of opts) q s = Inr vs \<longrightarrow>
        length vs \<le> maxQueryVariants (rag_config_of opts)
        \<and> vs \<noteq> [] \<and> weight (hd vs) = 1 \<and> reason (hd vs) = ''base''
        \<and> (\<forall>v\<in>set vs. reason v = ''synonym'' \<longrightarrow>
              (\<exists>kws index. expandSynonyms q = Inr kws \<and> index < length kws
                 \<and> query v = kws ! index
                 \<and> weight v = max 0.3 (1 - (real index + 1) * variantDecay (rag_config_of opts))
                 \<and> allowFallback v = (index = 0)))
        \<and> (0 < variantDecay (rag_config_of opts) \<and> variantDecay (rag_config_of opts) \<le> 0.7
             \<longrightarrow> sorted_wrt (\<lambda>a b. weight b \<le> weight a) vs))"
proof (intro conjI impI ballI)
  assume "\<forall>w\<in>set (split_char CHR '' '' q). w \<notin> set object_prototype_keys"
  then show "\<exists>vs. buildQueryVariants (rag_config_of opts) q s = Inr vs"
    by (rule buildQueryVariants_returns)
next
  assume r: "buildQueryVariants (rag_config_of opts) q s = Inr vs"
  note b = buildQueryVariants_base_first [OF r maxQueryVariants_positive]
  from buildQueryVariants_take [OF r] show "length vs \<le> maxQueryVariants (rag_config_of opts)"
    by auto
  from b show "vs \<noteq> []" by simp
  from b show "weight (hd vs) = 1" by (simp add: keyed_variant_def)
  from b show "reason (hd vs) = ''base''" by (simp add: keyed_variant_def)
  show "\<exists>kws index. expandSynonyms q = Inr kws \<and> index < length kws
                 \<and> query v = kws ! index
                 \<and> weight v = max 0.3 (1 - (real index + 1) * variantDecay (rag_config_of opts))
                 \<and> allowFallback v = (index = 0)"
    if "v \<in> set vs" "reason v = ''synonym''" for v
    using r that by (rule buildQueryVariants_synonym_weight)
  show "sorted_wrt (\<lambda>a b. weight b \<le> weight a) vs"
    if "0 < variantDecay (rag_config_of opts) \<and> variantDecay (rag_config_of opts) \<le> 0.7"
    using that by (intro buildQueryVariants_weights_sorted [OF r]) auto
qed

text \<open>
  With a decay of 0.8 the product variant weighs 0.2 and the synonym variants, held at
  the floor, 0.3: the weights increase.
\<close>

theorem buildQueryVariants_large_decay_counterexample:
  "(case buildQueryVariants (rag_config_of (default_options\<lparr>opt_variantDecay := Some 0.8\<rparr>))
           ''prix'' \<lparr>languageCode = None, s_rubrique = None, productCode = Some ''P1''\<rparr> of
      Inr vs \<Rightarrow> map (\<lambda>v. (reason v, weight v)) vs
    | Inl e \<Rightarrow> [])
   = [(''base'', 1), (''product'', 1 / 5), (''synonym'', 3 / 10), (''synonym'', 3 / 10)]
   \<and> \<not> (case buildQueryVariants (rag_config_of (default_options\<lparr>opt_variantDecay := Some 0.8\<rparr>))
               ''prix'' \<lparr>languageCode = None, s_rubrique = None, productCode = Some ''P1''\<rparr> of
          Inr vs \<Rightarrow> sorted_wrt (\<lambda>a b. weight b \<le> weight a) vs
        | Inl e \<Rightarrow> False)"
  by code_simp

theorem buildQueryVariants_capped_non_increasing_witness:
  "list_all (\<lambda>w. w \<notin> set object_prototype_keys) (split_char CHR '' '' ''prix du support'')
   \<and> buildQueryVariants (rag_config_of default_options) ''prix du support''
        \<lparr>languageCode = Some ''fr'', s_rubrique = Some ''account'', productCode = Some ''P7''\<rparr>
      = Inr (projr (buildQueryVariants (rag_config_of default_options) ''prix du support''
               \<lparr>languageCode = Some ''fr'', s_rubrique = Some ''account'',
                productCode = Some ''P7''\<rparr>))
   \<and> 0 < variantDecay (rag_config_of default_options)
   \<and> variantDecay (rag_config_of default_options) \<le> 0.7
   \<and> length (projr (buildQueryVariants (rag_config_of default_options) ''prix du support''
               \<lparr>languageCode = Some ''fr'', s_rubrique = Some ''account'',
                productCode = Some ''P7''\<rparr>)) \<le> 4
   \<and> sorted_wrt (\<lambda>a b. weight b \<le> weight a)
        (projr (buildQueryVariants (rag_config_of default_options) ''prix du support''
               \<lparr>languageCode = Some ''fr'', s_rubrique = Some ''account'',
                productCode = Some ''P7''\<rparr>))
   \<and> reason (projr (buildQueryVariants (rag_config_of default_options) ''prix du support''
               \<lparr>languageCode = Some ''fr'', s_rubrique = Some ''account'',
                productCode = Some ''P7''\<rparr>) ! 3) = ''synonym''
   \<and> weight (projr (buildQueryVariants (rag_config_of default_options) ''prix du support''
               \<lparr>languageCode = Some ''fr'', s_rubrique = Some ''account'',
                productCode = Some ''P7''\<rparr>) ! 3) = 17 / 20
   \<and> length (projr (expandSynonyms ''prix du support'')) = 8"
proof -
  define s where "s = \<lparr>languageCode = Some ''fr'', s_rubrique = Some ''account'',
                        productCode = Some ''P7''\<rparr>"
  define vs where "vs = projr (buildQueryVariants (rag_config_of default_options)
                                 ''prix du support'' s)"
  have a: "list_all (\<lambda>w. w \<notin> set object_prototype_keys) (split_char CHR '' '' ''prix du support'')"
    by code_simp
  have r: "buildQueryVariants (rag_config_of default_options) ''prix du support'' s = Inr vs"
    unfolding vs_def s_def by code_simp
  have d: "0 < variantDecay (rag_config_of default_options)
           \<and> variantDecay (rag_config_of default_options) \<le> 0.7"
    by code_simp
  have m: "maxQueryVariants (rag_config_of default_options) = 4" by code_simp
  have e: "reason (vs ! 3) = ''synonym''" "weight (vs ! 3) = 17 / 20"
    unfolding vs_def s_def by code_simp+
  have k: "length (projr (expandSynonyms ''prix du support'')) = 8" by code_simp
  note t = buildQueryVariants_capped_non_increasing
             [of "''prix du support''" default_options s vs, THEN conjunct2, rule_format, OF r]
  have n: "length vs \<le> 4" using t m by simp
  have so: "sorted_wrt (\<lambda>a b. weight b \<le> weight a) vs" using t d by blast
  show ?thesis
    using a r d [THEN conjunct1] d [THEN conjunct2] n so e k
    unfolding vs_def s_def by - (intro conjI; assumption)
qed

section \<open>Properties of \<open>retrieve\<close>\<close>

lemma aggregateCandidates_nonempty: "cs \<noteq> [] \<Longrightarrow> aggregateCandidates cs \<noteq> []"
proof -
  assume "cs \<noteq> []"
  then have "faqId ` set cs \<noteq> {}" by simp
  then have "faqId ` set (aggregateCandidates cs) \<noteq> {}"
    using aggregateCandidates_invariant [of cs] by simp
  then show ?thesis by auto
qed

lemma length_rank_entries: "length (rank_entries agg) = length agg"
  by (simp add: rank_entries_def)

lemma topKResults_positive: "0 < topKResults (rag_config_of opts)"
  by (simp add: rag_config_of_def nat_or_def split: option.splits)

lemma retrieve_result:
  assumes "retrieve cfg db now c q s = Inr (Some res, c')"
  shows "\<exists>candidates. candidates \<noteq> []
           \<and> rankedCandidates res = rank_entries (aggregateCandidates candidates)
           \<and> topCandidates res =
               (if filter (\<lambda>e. score e \<ge> minScore cfg)
                     (take (topKResults cfg) (rankedCandidates res)) \<noteq> []
                then filter (\<lambda>e. score e \<ge> minScore cfg)
                       (take (topKResults cfg) (rankedCandidates res))
                else take (topKResults cfg) (rankedCandidates res))"
  using assms
  by (auto simp: retrieve_def Let_def split: sum.splits prod.splits if_splits)

lemma rank_entries_rows:
  "map (\<lambda>e. (faqId e, row e, score e, sources e)) (rank_entries agg)
   = map (\<lambda>e. (faqId e, row e, score e, sources e)) (sort_key (\<lambda>e. - score e) agg)"
  unfolding rank_entries_def map_map comp_def
  by (simp add: case_prod_beta
        map_enumerate_snd [where g = "\<lambda>e. (faqId e, row e, score e, sources e)"])

lemma rank_entries_scores:
  "map score (rank_entries agg) = map score (sort_key (\<lambda>e. - score e) agg)"
  unfolding rank_entries_def map_map comp_def
  by (simp add: case_prod_beta map_enumerate_snd [where g = score])

lemma rank_entries_sorted: "sorted_wrt (\<lambda>a b. score b \<le> score a) (rank_entries agg)"
proof -
  have "sorted (map (\<lambda>e. - score e) (sort_key (\<lambda>e. - score e) agg))"
    by (rule sorted_sort_key)
  then have "sorted_wrt (\<lambda>a b. score b \<le> score a) (sort_key (\<lambda>e. - score e) agg)"
    by (simp add: sorted_map)
  then have "sorted_wrt (\<lambda>x y. y \<le> x) (map score (sort_key (\<lambda>e. - score e) agg))"
    by (simp add: sorted_wrt_map)
  then have "sorted_wrt (\<lambda>x y. y \<le> x) (map score (rank_entries agg))"
    by (simp only: rank_entries_scores)
  then show ?thesis by (simp add: sorted_wrt_map)
qed

lemma rank_entries_ranks: "map rank (rank_entries agg) = [1..<Suc (length agg)]"
proof -
  have "map rank (rank_entries agg)
        = map (\<lambda>p. Suc (fst p)) (enumerate 0 (sort_key (\<lambda>e. - score e) agg))"
    unfolding rank_entries_def map_map comp_def by (simp add: case_prod_beta)
  also have "\<dots> = map Suc (map fst (enumerate 0 (sort_key (\<lambda>e. - score e) agg)))"
    unfolding map_map comp_def ..
  also have "\<dots> = map Suc [0..<length agg]"
    by (simp only: map_fst_enumerate length_sort add_0)
  also have "\<dots> = [1..<Suc (length agg)]" by (simp only: map_Suc_upt One_nat_def)
  finally show ?thesis .
qed

lemma retrieve_loop_result:
  assumes "retrieve cfg db now c q s = Inr (Some res, c')"
  shows "\<exists>vs. buildQueryVariants cfg (normalizeQuery q) s = Inr vs
           \<and> fst (foldl (retrieve_step cfg db now s) ([], c) vs) \<noteq> []
           \<and> rankedCandidates res
               = rank_entries (aggregateCandidates
                   (fst (foldl (retrieve_step cfg db now s) ([], c) vs)))"
  using assms
  by (auto simp: retrieve_def Let_def split: sum.splits prod.splits if_splits)

text \<open>
  C7. For every non-null result of \<open>retrieve\<close>: the ranked candidates are all the
  aggregated candidates of the loop over the variants, with their row, score and sources,
  in the order of a stable sort by descending score, one per FAQ id, with the ranks
  \<open>1, 2, \<dots>\<close>; the top candidates are the members of the first \<open>topKResults\<close> ranked
  candidates whose score is at least \<open>minScore\<close>, unless none of them is, in which case
  they are those first \<open>topKResults\<close> ranked candidates; \<open>topKResults\<close> is at least 1 and
  the top candidates are never empty. By default \<open>topKResults\<close> is 3 and \<open>minScore\<close> is
  0.35.
\<close>

theorem retrieve_topCandidates_floor_with_fallback:
  "topKResults (rag_config_of default_options) = 3
   \<and> minScore (rag_config_of default_options) = 0.35
   \<and> 0 < topKResults (rag_config_of opts)
   \<and> (retrieve (rag_config_of opts) db now c q s = Inr (Some res, c') \<longrightarrow>
        (\<exists>vs. buildQueryVariants (rag_config_of opts) (normalizeQuery q) s = Inr vs
           \<and> (let candidates = fst (foldl (retrieve_step (rag_config_of opts) db now s) ([], c) vs)
              in candidates \<noteq> []
                 \<and> map (\<lambda>e. (faqId e, row e, score e, sources e)) (rankedCandidates res)
                   = map (\<lambda>e. (faqId e, row e, score e, sources e))
                       (sort_key (\<lambda>e. - score e) (aggregateCandidates candidates))
                 \<and> faqId ` set (rankedCandidates res) = faqId ` set candidates))
        \<and> distinct (map faqId (rankedCandidates res))
        \<and> sorted_wrt (\<lambda>a b. score b \<le> score a) (rankedCandidates res)
        \<and> map rank (rankedCandidates res) = [1..<Suc (length (rankedCandidates res))]
        \<and> rankedCandidates res \<noteq> []
        \<and> topCandidates res =
            (if filter (\<lambda>e. score e \<ge> minScore (rag_config_of opts))
                  (take (topKResults (rag_config_of opts)) (rankedCandidates res)) \<noteq> []
             then filter (\<lambda>e. score e \<ge> minScore (rag_config_of opts))
                    (take (topKResults (rag_config_of opts)) (rankedCandidates res))
             else take (topKResults (rag_config_of opts)) (rankedCandidates res))
        \<and> topCandidates res \<noteq> [])"
proof (intro conjI impI)
  show "topKResults (rag_config_of default_options) = 3" by code_simp
  show "minScore (rag_config_of default_options) = 0.35" by code_simp
  show "0 < topKResults (rag_config_of opts)" by (rule topKResults_positive)
next
  assume r: "retrieve (rag_config_of opts) db now c q s = Inr (Some res, c')"
  let ?cfg = "rag_config_of opts"
  let ?K = "topKResults ?cfg"
  let ?above = "filter (\<lambda>e. score e \<ge> minScore ?cfg) (take ?K (rankedCandidates res))"
  from retrieve_loop_result [OF r] obtain vs where
    vs: "buildQueryVariants ?cfg (normalizeQuery q) s = Inr vs" and
    ne: "fst (foldl (retrieve_step ?cfg db now s) ([], c) vs) \<noteq> []" and
    rk: "rankedCandidates res
         = rank_entries (aggregateCandidates (fst (foldl (retrieve_step ?cfg db now s) ([], c) vs)))"
    by blast
  define candidates where "candidates = fst (foldl (retrieve_step ?cfg db now s) ([], c) vs)"
  have ne': "candidates \<noteq> []" using ne unfolding candidates_def .
  have rk': "rankedCandidates res = rank_entries (aggregateCandidates candidates)"
    using rk unfolding candidates_def .
  from retrieve_result [OF r] have
    tc: "topCandidates res = (if ?above \<noteq> [] then ?above else take ?K (rankedCandidates res))"
    by blast
  have rows: "map (\<lambda>e. (faqId e, row e, score e, sources e)) (rankedCandidates res)
              = map (\<lambda>e. (faqId e, row e, score e, sources e))
                  (sort_key (\<lambda>e. - score e) (aggregateCandidates candidates))"
    unfolding rk' by (rule rank_entries_rows)
  have "set (map faqId (rankedCandidates res))
        = set (map faqId (sort_key (\<lambda>e. - score e) (aggregateCandidates candidates)))"
    unfolding rk' by (simp only: rank_entries_ids)
  then have "faqId ` set (rankedCandidates res) = faqId ` set (aggregateCandidates candidates)"
    by simp
  then have ids: "faqId ` set (rankedCandidates res) = faqId ` set candidates"
    using aggregateCandidates_invariant [of candidates] by simp
  have "\<exists>vs. buildQueryVariants ?cfg (normalizeQuery q) s = Inr vs
          \<and> fst (foldl (retrieve_step ?cfg db now s) ([], c) vs) \<noteq> []
          \<and> map (\<lambda>e. (faqId e, row e, score e, sources e)) (rankedCandidates res)
            = map (\<lambda>e. (faqId e, row e, score e, sources e))
                (sort_key (\<lambda>e. - score e)
                   (aggregateCandidates (fst (foldl (retrieve_step ?cfg db now s) ([], c) vs))))
          \<and> faqId ` set (rankedCandidates res)
            = faqId ` set (fst (foldl (retrieve_step ?cfg db now s) ([], c) vs))"
    using vs ne' rows ids unfolding candidates_def
    by - (rule exI [of _ vs], (intro conjI; assumption))
  then show "\<exists>vs. buildQueryVariants ?cfg (normalizeQuery q) s = Inr vs
           \<and> (let candidates = fst (foldl (retrieve_step ?cfg db now s) ([], c) vs)
              in candidates \<noteq> []
                 \<and> map (\<lambda>e. (faqId e, row e, score e, sources e)) (rankedCandidates res)
                   = map (\<lambda>e. (faqId e, row e, score e, sources e))
                       (sort_key (\<lambda>e. - score e) (aggregateCandidates candidates))
                 \<and> faqId ` set (rankedCandidates res) = faqId ` set candidates)"
    unfolding Let_def .
  show "distinct (map faqId (rankedCandidates res))"
    unfolding rk' rank_entries_distinct
    using aggregateCandidates_invariant [of candidates] by simp
  show "sorted_wrt (\<lambda>a b. score b \<le> score a) (rankedCandidates res)"
    unfolding rk' by (rule rank_entries_sorted)
  show "map rank (rankedCandidates res) = [1..<Suc (length (rankedCandidates res))]"
    unfolding rk' by (simp only: rank_entries_ranks length_rank_entries)
  have "length (rankedCandidates res) = length (aggregateCandidates candidates)"
    unfolding rk' by (rule length_rank_entries)
  with aggregateCandidates_nonempty [OF ne'] show rne: "rankedCandidates res \<noteq> []" by auto
  show "topCandidates res = (if ?above \<noteq> [] then ?above else take ?K (rankedCandidates res))"
    by (rule tc)
  have "take ?K (rankedCandidates res) \<noteq> []"
    using rne topKResults_positive [of opts] by (cases "rankedCandidates res") auto
  then show "topCandidates res \<noteq> []" unfolding tc by simp
qed

text \<open>
  Two calls with the default configuration. In the first the store returns five rows of
  relevance 0.1, 0.9, 0.5, 0.2 and 0.3: the sort reorders them, the cut at 3 drops two and
  the floor drops the third. In the second the store returns four rows of relevance 0.1,
  0.3, 0.2 and 0.05: none of the first three reaches the floor and all three are returned.
\<close>

theorem retrieve_topCandidates_floor_with_fallback_witness:
  "(let x = retrieve (rag_config_of default_options)
              \<lparr>searchFaqs = (\<lambda>vq fs. Inr
               [\<lparr>faq_id = 1, rubrique = None, product_ref = None, qa_data = QAMalformed,
                 last_updated = NoDate, relevance = Some 0.1, enhanced_relevance = None\<rparr>,
                \<lparr>faq_id = 2, rubrique = None, product_ref = None, qa_data = QAMalformed,
                 last_updated = NoDate, relevance = Some 0.9, enhanced_relevance = None\<rparr>,
                \<lparr>faq_id = 3, rubrique = None, product_ref = None, qa_data = QAMalformed,
                 last_updated = NoDate, relevance = Some 0.5, enhanced_relevance = None\<rparr>,
                \<lparr>faq_id = 4, rubrique = None, product_ref = None, qa_data = QAMalformed,
                 last_updated = NoDate, relevance = Some 0.2, enhanced_relevance = None\<rparr>,
                \<lparr>faq_id = 5, rubrique = None, product_ref = None, qa_data = QAMalformed,
                 last_updated = NoDate, relevance = Some 0.3, enhanced_relevance = None\<rparr>]),
               searchFaqContent = (\<lambda>vq fs. Inr [])\<rparr>
              0 None ''horaires''
              \<lparr>languageCode = None, s_rubrique = None, productCode = None\<rparr>;
        res = the (fst (projr x))
    in x = Inr (Some res, snd (projr x))
       \<and> map faqId (rankedCandidates res) = [2, 3, 5, 4, 1]
       \<and> map score (rankedCandidates res) = [9 / 10, 1 / 2, 3 / 10, 1 / 5, 1 / 10]
       \<and> map rank (rankedCandidates res) = [1, 2, 3, 4, 5]
       \<and> sorted_wrt (\<lambda>a b. score b \<le> score a) (rankedCandidates res)
       \<and> map faqId (take 3 (rankedCandidates res)) = [2, 3, 5]
       \<and> map faqId (topCandidates res) = [2, 3]
       \<and> topCandidates res \<noteq> [])
   \<and> (let y = retrieve (rag_config_of default_options)
              \<lparr>searchFaqs = (\<lambda>vq fs. Inr
               [\<lparr>faq_id = 1, rubrique = None, product_ref = None, qa_data = QAMalformed,
                 last_updated = NoDate, relevance = Some 0.1, enhanced_relevance = None\<rparr>,
                \<lparr>faq_id = 2, rubrique = None, product_ref = None, qa_data = QAMalformed,
                 last_updated = NoDate, relevance = Some 0.3, enhanced_relevance = None\<rparr>,
                \<lparr>faq_id = 3, rubrique = None, product_ref = None, qa_data = QAMalformed,
                 last_updated = NoDate, relevance = Some 0.2, enhanced_relevance = None\<rparr>,
                \<lparr>faq_id = 4, rubrique = None, product_ref = None, qa_data = QAMalformed,
                 last_updated = NoDate, relevance = Some 0.05, enhanced_relevance = None\<rparr>]),
               searchFaqContent = (\<lambda>vq fs. Inr [])\<rparr>
              0 None ''horaires''
              \<lparr>languageCode = None, s_rubrique = None, productCode = None\<rparr>;
        res2 = the (fst (projr y))
    in y = Inr (Some res2, snd (projr y))
       \<and> map faqId (rankedCandidates res2) = [2, 3, 1, 4]
       \<and> map faqId (topCandidates res2) = [2, 3, 1]
       \<and> topCandidates res2 \<noteq> [])"
proof -
  define x where "x = retrieve (rag_config_of default_options)
     \<lparr>searchFaqs = (\<lambda>vq fs. Inr
      [\<lparr>faq_id = 1, rubrique = None, product_ref = None, qa_data = QAMalformed,
        last_updated = NoDate, relevance = Some 0.1, enhanced_relevance = None\<rparr>,
       \<lparr>faq_id = 2, rubrique = None, product_ref = None, qa_data = QAMalformed,
        last_updated = NoDate, relevance = Some 0.9, enhanced_relevance = None\<rparr>,
       \<lparr>faq_id = 3, rubrique = None, product_ref = None, qa_data = QAMalformed,
        last_updated = NoDate, relevance = Some 0.5, enhanced_relevance = None\<rparr>,
       \<lparr>faq_id = 4, rubrique = None, product_ref = None, qa_data = QAMalformed,
        last_updated = NoDate, relevance = Some 0.2, enhanced_relevance = None\<rparr>,
       \<lparr>faq_id = 5, rubrique = None, product_ref = None, qa_data = QAMalformed,
        last_updated = NoDate, relevance = Some 0.3, enhanced_relevance = None\<rparr>]),
      searchFaqContent = (\<lambda>vq fs. Inr [])\<rparr>
     0 None ''horaires''
     \<lparr>languageCode = None, s_rubrique = None, productCode = None\<rparr>"
  define res where "res = the (fst (projr x))"
  define y where "y = retrieve (rag_config_of default_options)
     \<lparr>searchFaqs = (\<lambda>vq fs. Inr
      [\<lparr>faq_id = 1, rubrique = None, product_ref = None, qa_data = QAMalformed,
        last_updated = NoDate, relevance = Some 0.1, enhanced_relevance = None\<rparr>,
       \<lparr>faq_id = 2, rubrique = None, product_ref = None, qa_data = QAMalformed,
        last_updated = NoDate, relevance = Some 0.3, enhanced_relevance = None\<rparr>,
       \<lparr>faq_id = 3, rubrique = None, product_ref = None, qa_data = QAMalformed,
        last_updated = NoDate, relevance = Some 0.2, enhanced_relevance = None\<rparr>,
       \<lparr>faq_id = 4, rubrique = None, product_ref = None, qa_data = QAMalformed,
        last_updated = NoDate, relevance = Some 0.05, enhanced_relevance = None\<rparr>]),
      searchFaqContent = (\<lambda>vq fs. Inr [])\<rparr>
     0 None ''horaires''
     \<lparr>languageCode = None, s_rubrique = None, productCode = None\<rparr>"
  define res2 where "res2 = the (fst (projr y))"
  have r: "x = Inr (Some res, snd (projr x))"
    unfolding res_def x_def by code_simp
  have v1: "map faqId (rankedCandidates res) = [2, 3, 5, 4, 1]"
    unfolding res_def x_def by code_simp
  have v2: "map score (rankedCandidates res) = [9 / 10, 1 / 2, 3 / 10, 1 / 5, 1 / 10]"
    unfolding res_def x_def by code_simp
  have v3: "map rank (rankedCandidates res) = [1, 2, 3, 4, 5]"
    unfolding res_def x_def by code_simp
  have v4: "map faqId (take 3 (rankedCandidates res)) = [2, 3, 5]"
    unfolding res_def x_def by code_simp
  have v5: "map faqId (topCandidates res) = [2, 3]"
    unfolding res_def x_def by code_simp
  have r2: "y = Inr (Some res2, snd (projr y))"
    unfolding res2_def y_def by code_simp
  have w1: "map faqId (rankedCandidates res2) = [2, 3, 1, 4]"
    unfolding res2_def y_def by code_simp
  have w2: "map faqId (topCandidates res2) = [2, 3, 1]"
    unfolding res2_def y_def by code_simp
  note t = retrieve_topCandidates_floor_with_fallback
             [THEN conjunct2, THEN conjunct2, THEN conjunct2, THEN mp, OF r [unfolded x_def]]
  note t2 = retrieve_topCandidates_floor_with_fallback
             [THEN conjunct2, THEN conjunct2, THEN conjunct2, THEN mp, OF r2 [unfolded y_def]]
  have s: "sorted_wrt (\<lambda>a b. score b \<le> score a) (rankedCandidates res)"
    by (rule t [THEN conjunct2, THEN conjunct2, THEN conjunct1])
  have n: "topCandidates res \<noteq> []"
    by (rule t [THEN conjunct2, THEN conjunct2, THEN conjunct2, THEN conjunct2,
                THEN conjunct2, THEN conjunct2])
  have n2: "topCandidates res2 \<noteq> []"
    by (rule t2 [THEN conjunct2, THEN conjunct2, THEN conjunct2, THEN conjunct2,
                 THEN conjunct2, THEN conjunct2])
  from r v1 v2 v3 s v4 v5 n r2 w1 w2 n2
  have "(x = Inr (Some res, snd (projr x))
       \<and> map faqId (rankedCandidates res) = [2, 3, 5, 4, 1]
       \<and> map score (rankedCandidates res) = [9 / 10, 1 / 2, 3 / 10, 1 / 5, 1 / 10]
       \<and> map rank (rankedCandidates res) = [1, 2, 3, 4, 5]
       \<and> sorted_wrt (\<lambda>a b. score b \<le> score a) (rankedCandidates res)
       \<and> map faqId (take 3 (rankedCandidates res)) = [2, 3, 5]
       \<and> map faqId (topCandidates res) = [2, 3]
       \<and> topCandidates res \<noteq> [])
        \<and> (y = Inr (Some res2, snd (projr y))
       \<and> map faqId (rankedCandidates res2) = [2, 3, 1, 4]
       \<and> map faqId (topCandidates res2) = [2, 3, 1]
       \<and> topCandidates res2 \<noteq> [])"
    by - (intro conjI; assumption)
  then show ?thesis unfolding Let_def res_def res2_def x_def y_def .
qed
section \<open>Failures of the store\<close>










text \<open>
  Apart from the store: the query \<open>constructor\<close> makes \<open>expandSynonyms\<close> call \<open>forEach\<close> on
  the inherited \<open>Object\<close> function, and the \<open>TypeError\<close> leaves \<open>retrieve\<close>.
\<close>

lemma retrieve_throws_on_inherited_property_name:
  "retrieve (rag_config_of default_options)
     \<lparr>searchFaqs = (\<lambda>vq fs. Inr []), searchFaqContent = (\<lambda>vq fs. Inr [])\<rparr>
     0 None ''constructor'' \<lparr>languageCode = None, s_rubrique = None, productCode = None\<rparr>
   = Inl TypeError"
  by code_simp

section \<open>Properties of the answer matcher\<close>




















end
